theory Spec2Isabelle
  imports Complex_Main
begin

section \<open>The Black-Scholes pricer of \<^verbatim>\<open>Finance/Black-Scholes.ipynb\<close>\<close>

text \<open>
  The notebook defines \<^verbatim>\<open>black_scholes(S, K, T, r, sigma, option_type='call')\<close> twice:
  once in the cell "Define the Black-Scholes Function" and once more, with its numeric
  parameters overwritten by literals, in the cell "Example calculation". Two further cells
  sweep the volatility and the maturity.

  The code is read in two ways.

  In exact arithmetic (\<open>black_scholes\<close>): a Python float is a real number and every
  operation is exact. This is the reading for the statements that are about real
  arithmetic: reference values up to a tolerance, limits, signs. The exceptions the
  code can raise are values of \<open>error\<close>. numpy does not raise outside the real domain of
  \<^verbatim>\<open>np.log\<close>, \<^verbatim>\<open>np.sqrt\<close> and of a division by a numpy zero: it returns \<^verbatim>\<open>nan\<close> or an
  infinity. Such a value is \<open>Special\<close> in this reading, and what the floating-point
  computation makes of it afterwards is not tracked: every operation on \<open>Special\<close> is
  \<open>Special\<close>.

  In floating point and in a session (\<open>black_scholes_run\<close>): a value is a double, that
  is a real number, an infinity or \<^verbatim>\<open>nan\<close>; an operation whose exact result is outside
  the range of the doubles overflows; an argument is a Python float or a numpy float,
  and the two raise or warn differently; what numpy does with a floating-point
  exception depends on the session, which it may change. This is the reading for the
  statements about what a call returns or raises. Rounding inside the range, underflow
  and the sign of a zero are not modelled: inside the range the two readings agree
  (\<open>run_agrees_with_exact\<close>).
\<close>

subsection \<open>Values and errors\<close>

datatype error =
  ValueError | ZeroDivisionError | NameError | TypeError | OverflowError | FloatingPointError

datatype npfloat = Fin real | Special

text \<open>\<^verbatim>\<open>S / K\<close> on Python numbers raises \<^verbatim>\<open>ZeroDivisionError\<close> when \<^verbatim>\<open>K\<close> is zero.\<close>

definition py_div :: "real \<Rightarrow> real \<Rightarrow> error + real" where
  "py_div a b = (if b = 0 then Inl ZeroDivisionError else Inr (a / b))"

definition np_log :: "real \<Rightarrow> npfloat" where
  "np_log x = (if 0 < x then Fin (ln x) else Special)"

definition np_sqrt :: "real \<Rightarrow> npfloat" where
  "np_sqrt x = (if 0 \<le> x then Fin (sqrt x) else Special)"

definition np_exp :: "real \<Rightarrow> real" where
  "np_exp x = exp x"

fun np_lift :: "(real \<Rightarrow> real) \<Rightarrow> npfloat \<Rightarrow> npfloat" where
  "np_lift f (Fin x) = Fin (f x)"
| "np_lift f Special = Special"

fun np_lift2 :: "(real \<Rightarrow> real \<Rightarrow> real) \<Rightarrow> npfloat \<Rightarrow> npfloat \<Rightarrow> npfloat" where
  "np_lift2 f (Fin x) (Fin y) = Fin (f x y)"
| "np_lift2 f _ _ = Special"

definition np_add :: "npfloat \<Rightarrow> npfloat \<Rightarrow> npfloat" where
  "np_add = np_lift2 (+)"

definition np_sub :: "npfloat \<Rightarrow> npfloat \<Rightarrow> npfloat" where
  "np_sub = np_lift2 (-)"

definition np_mul :: "npfloat \<Rightarrow> npfloat \<Rightarrow> npfloat" where
  "np_mul = np_lift2 (*)"

definition np_neg :: "npfloat \<Rightarrow> npfloat" where
  "np_neg = np_lift uminus"

text \<open>Division of numpy floats: a zero divisor gives an infinity or \<^verbatim>\<open>nan\<close>, no exception.\<close>

fun np_div :: "npfloat \<Rightarrow> npfloat \<Rightarrow> npfloat" where
  "np_div (Fin x) (Fin y) = (if y = 0 then Special else Fin (x / y))"
| "np_div _ _ = Special"

subsection \<open>The standard normal distribution function\<close>

text \<open>
  Modelled from the spec: \<^verbatim>\<open>scipy.stats.norm.cdf\<close> is a library function, its code is
  not part of the repository. The spec takes it to be the standard normal cumulative
  distribution function (mean 0, variance 1). It is defined here by the power series of
  \<open>1/2 + (\<integral>\<^sub>0\<^sup>x exp (- t\<^sup>2 / 2) dt) / sqrt (2 pi)\<close>, integrated term by term.
\<close>

definition gauss_coeff :: "nat \<Rightarrow> real" where
  "gauss_coeff n = (- 1) ^ n / (fact n * 2 ^ n * real (2 * n + 1))"

definition gauss_int :: "real \<Rightarrow> real" where
  "gauss_int x = x * (\<Sum>n. gauss_coeff n * (x\<^sup>2) ^ n)"

definition norm_pdf :: "real \<Rightarrow> real" where
  "norm_pdf x = exp (- x\<^sup>2 / 2) / sqrt (2 * pi)"

definition norm_cdf :: "real \<Rightarrow> real" where
  "norm_cdf x = 1 / 2 + gauss_int x / sqrt (2 * pi)"

text \<open>
  That \<open>norm_cdf\<close> is the standard normal distribution function is what the lemmas
  \<open>DERIV_norm_cdf\<close> (its derivative is the density \<open>norm_pdf\<close>), \<open>norm_cdf_at_bot\<close> and
  \<open>norm_cdf_at_top\<close> (its limits are 0 and 1) say together.

  Auxiliary functions for the analysis of \<open>norm_cdf\<close>: the series without its factor
  \<open>x\<close>, the antiderivative of \<open>cos ^ k\<close> that vanishes at 0, given by its reduction
  formula, and its value at \<open>pi / 2\<close> (the Wallis integral).
\<close>

definition gauss_series :: "real \<Rightarrow> real" where
  "gauss_series y = (\<Sum>n. gauss_coeff n * y ^ n)"

fun cos_int :: "nat \<Rightarrow> real \<Rightarrow> real" where
  "cos_int 0 x = x"
| "cos_int (Suc 0) x = sin x"
| "cos_int (Suc (Suc k)) x =
     (cos x ^ Suc k * sin x + real (Suc k) * cos_int k x) / real (Suc (Suc k))"

definition wallis :: "nat \<Rightarrow> real" where
  "wallis k = cos_int k (pi / 2)"


subsection \<open>The pricing function\<close>

text \<open>
  \<^verbatim>\<open>black_scholes\<close> of the cell "Define the Black-Scholes Function", statement by
  statement, with the distribution function it calls as the parameter \<open>cdf\<close>:
  \<^verbatim>\<open>
    d1 = (np.log(S / K) + (r + sigma**2 / 2) * T) / (sigma * np.sqrt(T))
    d2 = d1 - sigma * np.sqrt(T)
    if option_type == 'call':
        price = S * norm.cdf(d1) - K * np.exp(-r * T) * norm.cdf(d2)
    elif option_type == 'put':
        price = K * np.exp(-r * T) * norm.cdf(-d2) - S * norm.cdf(-d1)
    else:
        raise ValueError("Option type must be 'call' or 'put'.")
    return price
  \<close>
\<close>

definition compute_d1 :: "real \<Rightarrow> real \<Rightarrow> real \<Rightarrow> real \<Rightarrow> npfloat" where
  "compute_d1 q T r sigma =
     np_div (np_add (np_log q) (Fin ((r + sigma\<^sup>2 / 2) * T)))
            (np_mul (Fin sigma) (np_sqrt T))"

definition compute_d2 :: "npfloat \<Rightarrow> real \<Rightarrow> real \<Rightarrow> npfloat" where
  "compute_d2 d1 T sigma = np_sub d1 (np_mul (Fin sigma) (np_sqrt T))"

definition black_scholes_with ::
  "(real \<Rightarrow> real) \<Rightarrow> real \<Rightarrow> real \<Rightarrow> real \<Rightarrow> real \<Rightarrow> real \<Rightarrow> string \<Rightarrow> error + npfloat" where
  "black_scholes_with cdf S K T r sigma option_type =
     (case py_div S K of
        Inl e \<Rightarrow> Inl e
      | Inr q \<Rightarrow>
          (let d1 = compute_d1 q T r sigma;
               d2 = compute_d2 d1 T sigma
           in if option_type = ''call'' then
                Inr (np_sub (np_mul (Fin S) (np_lift cdf d1))
                            (np_mul (Fin (K * np_exp (- r * T))) (np_lift cdf d2)))
              else if option_type = ''put'' then
                Inr (np_sub (np_mul (Fin (K * np_exp (- r * T))) (np_lift cdf (np_neg d2)))
                            (np_mul (Fin S) (np_lift cdf (np_neg d1))))
              else Inl ValueError))"

definition black_scholes :: "real \<Rightarrow> real \<Rightarrow> real \<Rightarrow> real \<Rightarrow> real \<Rightarrow> string \<Rightarrow> error + npfloat" where
  "black_scholes = black_scholes_with norm_cdf"

subsection \<open>The formula in the words of the specification\<close>

definition spec_d1 :: "real \<Rightarrow> real \<Rightarrow> real \<Rightarrow> real \<Rightarrow> real \<Rightarrow> real" where
  "spec_d1 spot strike maturity rate volatility =
     (ln (spot / strike) + (rate + volatility\<^sup>2 / 2) * maturity) / (volatility * sqrt maturity)"

definition spec_d2 :: "real \<Rightarrow> real \<Rightarrow> real \<Rightarrow> real \<Rightarrow> real \<Rightarrow> real" where
  "spec_d2 spot strike maturity rate volatility =
     spec_d1 spot strike maturity rate volatility - volatility * sqrt maturity"

definition spec_call :: "(real \<Rightarrow> real) \<Rightarrow> real \<Rightarrow> real \<Rightarrow> real \<Rightarrow> real \<Rightarrow> real \<Rightarrow> real" where
  "spec_call Phi spot strike maturity rate volatility =
     spot * Phi (spec_d1 spot strike maturity rate volatility)
     - strike * exp (- rate * maturity) * Phi (spec_d2 spot strike maturity rate volatility)"

definition spec_put :: "(real \<Rightarrow> real) \<Rightarrow> real \<Rightarrow> real \<Rightarrow> real \<Rightarrow> real \<Rightarrow> real \<Rightarrow> real" where
  "spec_put Phi spot strike maturity rate volatility =
     strike * exp (- rate * maturity) * Phi (- spec_d2 spot strike maturity rate volatility)
     - spot * Phi (- spec_d1 spot strike maturity rate volatility)"

subsection \<open>The redefinition in the cell "Example calculation"\<close>

text \<open>
  The second \<^verbatim>\<open>black_scholes\<close> first overwrites its five numeric parameters, then runs
  the same statements as the first one, and has four more statements after its
  \<^verbatim>\<open>return\<close>:
  \<^verbatim>\<open>
    S = 100; K = 100; T = 1; r = 0.05; sigma = 0.2
    d1 = ...; d2 = ...; if / elif / else as above
    return price

    call_price = black_scholes(S, K, T, r, sigma, 'call')
    put_price = black_scholes(S, K, T, r, sigma, 'put')
    print(f"Call Option Price: ${call_price:.2f}")
    print(f"Put Option Price: ${put_price:.2f}")
  \<close>
  Standard output is threaded through as a list of printed lines. A statement either
  lets control go on, or leaves the function by \<^verbatim>\<open>return\<close> or by an exception. A
  function body that runs to its end returns \<^verbatim>\<open>None\<close>, and \<^verbatim>\<open>None\<close> under the format
  \<^verbatim>\<open>:.2f\<close> raises \<^verbatim>\<open>TypeError\<close>.
\<close>

datatype pyvalue = Float npfloat | NoneValue

datatype line = CallLine npfloat | PutLine npfloat

datatype flow = Continue | Return npfloat | Raise error

definition price_statements :: "real \<Rightarrow> real \<Rightarrow> real \<Rightarrow> real \<Rightarrow> real \<Rightarrow> string \<Rightarrow> flow" where
  "price_statements S K T r sigma option_type =
     (case black_scholes S K T r sigma option_type of
        Inl e \<Rightarrow> Raise e
      | Inr price \<Rightarrow> Return price)"

function black_scholes_example ::
  "real \<Rightarrow> real \<Rightarrow> real \<Rightarrow> real \<Rightarrow> real \<Rightarrow> string \<Rightarrow> line list \<Rightarrow> (error + pyvalue) \<times> line list" where
  "black_scholes_example S K T r sigma option_type out =
     (let S = 100; K = 100; T = 1; r = 5 / 100; sigma = 2 / 10 in
      case price_statements S K T r sigma option_type of
        Return price \<Rightarrow> (Inr (Float price), out)
      | Raise e \<Rightarrow> (Inl e, out)
      | Continue \<Rightarrow>
          (case black_scholes_example S K T r sigma ''call'' out of
             (Inl e, out1) \<Rightarrow> (Inl e, out1)
           | (Inr call_price, out1) \<Rightarrow>
               (case black_scholes_example S K T r sigma ''put'' out1 of
                  (Inl e, out2) \<Rightarrow> (Inl e, out2)
                | (Inr put_price, out2) \<Rightarrow>
                    (case call_price of
                       NoneValue \<Rightarrow> (Inl TypeError, out2)
                     | Float c \<Rightarrow>
                         (case put_price of
                            NoneValue \<Rightarrow> (Inl TypeError, out2 @ [CallLine c])
                          | Float p \<Rightarrow> (Inr NoneValue, out2 @ [CallLine c, PutLine p]))))))"
  by pat_completeness auto

text \<open>
  The recursive calls stand after the \<^verbatim>\<open>return\<close>. The pricing statements always leave
  the function, so no recursive call is ever made: this is the termination argument.
\<close>

lemma price_statements_leave: "price_statements S K T r sigma option_type \<noteq> Continue"
  by (simp add: price_statements_def split: sum.splits)

termination black_scholes_example
  by (relation "{}") (simp_all add: price_statements_leave)

subsection \<open>The volatility sweep\<close>

text \<open>
  \<^verbatim>\<open>
    sigmas = np.linspace(0.1, 0.5, 100)
    prices = [black_scholes(S, K, T, r, s, 'call') for s in sigmas]
  \<close>
  \<^verbatim>\<open>S\<close>, \<^verbatim>\<open>K\<close>, \<^verbatim>\<open>T\<close> and \<^verbatim>\<open>r\<close> are global names of the notebook session, looked up
  when the cell runs; the pricing function is whatever \<^verbatim>\<open>black_scholes\<close> is bound to.
\<close>

definition linspace :: "real \<Rightarrow> real \<Rightarrow> nat \<Rightarrow> real list" where
  "linspace start stop num =
     map (\<lambda>i. start + real i * ((stop - start) / real (num - 1))) [0..<num]"

subsection \<open>Floating-point values, exceptions and warnings\<close>

text \<open>
  A double is a real number or one of the three non-finite values. The result of an
  operation whose exact value is \<open>x\<close> is \<open>x\<close> itself when \<open>x\<close> is in the range of the
  format, and an infinity with the overflow exception otherwise: the range is modelled,
  rounding inside the range is not, nor are underflow and the sign of a zero (a zero is the
  positive zero). \<open>max_float\<close> is the largest double, \<open>2 ^ 970\<close> half the distance to
  its neighbours: an exact value of at least \<open>max_float + 2 ^ 970\<close> rounds to an infinity.
\<close>

datatype float64 = Finite real | PosInf | NegInf | NaN

definition max_float :: real where
  "max_float = (2 - 1 / 2 ^ 52) * 2 ^ 1023"

definition fits :: "real \<Rightarrow> bool" where
  "fits x \<longleftrightarrow> \<bar>x\<bar> < max_float + 2 ^ 970"

datatype fp_event = DivideByZero | Overflow | Invalid

definition ieee_result :: "real \<Rightarrow> float64 \<times> fp_event option" where
  "ieee_result x =
     (if fits x then (Finite x, None)
      else (if 0 < x then PosInf else NegInf, Some Overflow))"

fun ieee_neg :: "float64 \<Rightarrow> float64" where
  "ieee_neg (Finite x) = Finite (- x)"
| "ieee_neg PosInf = NegInf"
| "ieee_neg NegInf = PosInf"
| "ieee_neg NaN = NaN"

fun ieee_add :: "float64 \<Rightarrow> float64 \<Rightarrow> float64 \<times> fp_event option" where
  "ieee_add (Finite x) (Finite y) = ieee_result (x + y)"
| "ieee_add NaN b = (NaN, None)"
| "ieee_add a NaN = (NaN, None)"
| "ieee_add PosInf NegInf = (NaN, Some Invalid)"
| "ieee_add NegInf PosInf = (NaN, Some Invalid)"
| "ieee_add PosInf b = (PosInf, None)"
| "ieee_add NegInf b = (NegInf, None)"
| "ieee_add (Finite x) b = (b, None)"

definition ieee_sub :: "float64 \<Rightarrow> float64 \<Rightarrow> float64 \<times> fp_event option" where
  "ieee_sub a b = ieee_add a (ieee_neg b)"

fun sign_of :: "float64 \<Rightarrow> real" where
  "sign_of (Finite x) = sgn x"
| "sign_of PosInf = 1"
| "sign_of NegInf = - 1"
| "sign_of NaN = 0"

definition infinity :: "real \<Rightarrow> float64" where
  "infinity s = (if 0 < s then PosInf else NegInf)"

fun ieee_mul :: "float64 \<Rightarrow> float64 \<Rightarrow> float64 \<times> fp_event option" where
  "ieee_mul (Finite x) (Finite y) = ieee_result (x * y)"
| "ieee_mul NaN b = (NaN, None)"
| "ieee_mul a NaN = (NaN, None)"
| "ieee_mul a b =
     (if sign_of a * sign_of b = 0 then (NaN, Some Invalid)
      else (infinity (sign_of a * sign_of b), None))"

fun ieee_div :: "float64 \<Rightarrow> float64 \<Rightarrow> float64 \<times> fp_event option" where
  "ieee_div (Finite x) (Finite y) =
     (if y = 0 then
        (if x = 0 then (NaN, Some Invalid) else (infinity x, Some DivideByZero))
      else ieee_result (x / y))"
| "ieee_div NaN b = (NaN, None)"
| "ieee_div a NaN = (NaN, None)"
| "ieee_div (Finite x) b = (Finite 0, None)"
| "ieee_div a (Finite y) = (infinity (if y < 0 then - sign_of a else sign_of a), None)"
| "ieee_div a b = (NaN, Some Invalid)"

fun ieee_square :: "float64 \<Rightarrow> float64 \<times> fp_event option" where
  "ieee_square (Finite x) = ieee_result (x\<^sup>2)"
| "ieee_square NaN = (NaN, None)"
| "ieee_square a = (PosInf, None)"

fun ieee_log :: "float64 \<Rightarrow> float64 \<times> fp_event option" where
  "ieee_log (Finite x) =
     (if 0 < x then (Finite (ln x), None)
      else if x = 0 then (NegInf, Some DivideByZero)
      else (NaN, Some Invalid))"
| "ieee_log PosInf = (PosInf, None)"
| "ieee_log NegInf = (NaN, Some Invalid)"
| "ieee_log NaN = (NaN, None)"

fun ieee_sqrt :: "float64 \<Rightarrow> float64 \<times> fp_event option" where
  "ieee_sqrt (Finite x) = (if 0 \<le> x then (Finite (sqrt x), None) else (NaN, Some Invalid))"
| "ieee_sqrt PosInf = (PosInf, None)"
| "ieee_sqrt NegInf = (NaN, Some Invalid)"
| "ieee_sqrt NaN = (NaN, None)"

fun ieee_exp :: "float64 \<Rightarrow> float64 \<times> fp_event option" where
  "ieee_exp (Finite x) = ieee_result (exp x)"
| "ieee_exp PosInf = (PosInf, None)"
| "ieee_exp NegInf = (Finite 0, None)"
| "ieee_exp NaN = (NaN, None)"

text \<open>
  The distribution function of the library on a double: it maps the infinities to 1 and
  0 and \<^verbatim>\<open>nan\<close> to \<^verbatim>\<open>nan\<close>, and signals nothing.
\<close>

fun ieee_cdf :: "(real \<Rightarrow> real) \<Rightarrow> float64 \<Rightarrow> float64" where
  "ieee_cdf cdf (Finite x) = Finite (cdf x)"
| "ieee_cdf cdf PosInf = Finite 1"
| "ieee_cdf cdf NegInf = Finite 0"
| "ieee_cdf cdf NaN = NaN"

subsection \<open>Python floats, numpy floats and the session\<close>

text \<open>
  An argument is a Python \<^verbatim>\<open>float\<close> or a \<^verbatim>\<open>numpy.float64\<close>, with a finite value. (A
  Python \<^verbatim>\<open>int\<close> that a double represents exactly behaves in these expressions as the
  Python float of the same value; larger ones are not modelled.) The two kinds differ in
  what an exceptional operation does:

    \<^item> between Python floats, \<^verbatim>\<open>/\<close> raises \<^verbatim>\<open>ZeroDivisionError\<close> on a zero divisor and
      \<^verbatim>\<open>**\<close> raises \<^verbatim>\<open>OverflowError\<close> when the power overflows; \<^verbatim>\<open>+\<close>, \<^verbatim>\<open>-\<close>, \<^verbatim>\<open>*\<close> and
      an overflowing \<^verbatim>\<open>/\<close> return the non-finite result silently;

    \<^item> as soon as one operand is a numpy float, and in \<^verbatim>\<open>np.log\<close>, \<^verbatim>\<open>np.sqrt\<close> and
      \<^verbatim>\<open>np.exp\<close>, the operation returns the non-finite result as a numpy float and hands
      the exception (divide by zero, overflow, invalid) to numpy's error handling.

  What numpy's error handling does depends on the session: on the error mode
  (\<^verbatim>\<open>np.seterr\<close>), on the warnings filter and on the warnings already issued. It is the
  parameter \<open>handler\<close>: given the exception and the state of the session it may raise, and
  it returns the new state (a warning printed, a registry updated). A computation is a
  function from the state of the session to a result, an exception or a value, and the
  new state.
\<close>

datatype kind = Python | Numpy

datatype pyfloat = PyFloat real | NpFloat real

fun kind_of :: "pyfloat \<Rightarrow> kind" where
  "kind_of (PyFloat x) = Python"
| "kind_of (NpFloat x) = Numpy"

fun value_of :: "pyfloat \<Rightarrow> real" where
  "value_of (PyFloat x) = x"
| "value_of (NpFloat x) = x"

definition as_value :: "pyfloat \<Rightarrow> kind \<times> float64" where
  "as_value a = (kind_of a, Finite (value_of a))"

definition join_kind :: "kind \<Rightarrow> kind \<Rightarrow> kind" where
  "join_kind k1 k2 = (if k1 = Python \<and> k2 = Python then Python else Numpy)"

type_synonym ('a, 'st) run = "'st \<Rightarrow> (error + 'a) \<times> 'st"

type_synonym 'st handler = "fp_event \<Rightarrow> 'st \<Rightarrow> error option \<times> 'st"

definition ret :: "'a \<Rightarrow> ('a, 'st) run" where
  "ret x = (\<lambda>st. (Inr x, st))"

definition throw :: "error \<Rightarrow> ('a, 'st) run" where
  "throw e = (\<lambda>st. (Inl e, st))"

definition and_then :: "('a, 'st) run \<Rightarrow> ('a \<Rightarrow> ('b, 'st) run) \<Rightarrow> ('b, 'st) run" where
  "and_then m f =
     (\<lambda>st. case m st of (Inl e, st') \<Rightarrow> (Inl e, st') | (Inr x, st') \<Rightarrow> f x st')"

definition signal :: "'st handler \<Rightarrow> fp_event \<Rightarrow> (unit, 'st) run" where
  "signal handler ev =
     (\<lambda>st. case handler ev st of
        (None, st') \<Rightarrow> (Inr (), st')
      | (Some e, st') \<Rightarrow> (Inl e, st'))"

text \<open>The result of a numpy operation: the exception, if any, goes to the handler first.\<close>

definition deliver :: "'st handler \<Rightarrow> float64 \<times> fp_event option \<Rightarrow> (kind \<times> float64, 'st) run" where
  "deliver handler res =
     (case snd res of
        None \<Rightarrow> ret (Numpy, fst res)
      | Some ev \<Rightarrow> and_then (signal handler ev) (\<lambda>_. ret (Numpy, fst res)))"

definition fl_binary ::
  "'st handler \<Rightarrow> (float64 \<Rightarrow> float64 \<Rightarrow> float64 \<times> fp_event option)
     \<Rightarrow> kind \<times> float64 \<Rightarrow> kind \<times> float64 \<Rightarrow> (kind \<times> float64, 'st) run" where
  "fl_binary handler op a b =
     (if join_kind (fst a) (fst b) = Python then ret (Python, fst (op (snd a) (snd b)))
      else deliver handler (op (snd a) (snd b)))"

definition fl_add :: "'st handler \<Rightarrow> kind \<times> float64 \<Rightarrow> kind \<times> float64 \<Rightarrow> (kind \<times> float64, 'st) run" where
  "fl_add handler = fl_binary handler ieee_add"

definition fl_sub :: "'st handler \<Rightarrow> kind \<times> float64 \<Rightarrow> kind \<times> float64 \<Rightarrow> (kind \<times> float64, 'st) run" where
  "fl_sub handler = fl_binary handler ieee_sub"

definition fl_mul :: "'st handler \<Rightarrow> kind \<times> float64 \<Rightarrow> kind \<times> float64 \<Rightarrow> (kind \<times> float64, 'st) run" where
  "fl_mul handler = fl_binary handler ieee_mul"

definition fl_div :: "'st handler \<Rightarrow> kind \<times> float64 \<Rightarrow> kind \<times> float64 \<Rightarrow> (kind \<times> float64, 'st) run" where
  "fl_div handler a b =
     (if join_kind (fst a) (fst b) = Python \<and> snd b = Finite 0 then throw ZeroDivisionError
      else fl_binary handler ieee_div a b)"

text \<open>\<^verbatim>\<open>sigma**2\<close>.\<close>

definition fl_square :: "'st handler \<Rightarrow> kind \<times> float64 \<Rightarrow> (kind \<times> float64, 'st) run" where
  "fl_square handler a =
     (if fst a = Python then
        (case snd (ieee_square (snd a)) of
           None \<Rightarrow> ret (Python, fst (ieee_square (snd a)))
         | Some ev \<Rightarrow> throw OverflowError)
      else deliver handler (ieee_square (snd a)))"

definition fl_neg :: "kind \<times> float64 \<Rightarrow> kind \<times> float64" where
  "fl_neg a = (fst a, ieee_neg (snd a))"

definition fl_log :: "'st handler \<Rightarrow> kind \<times> float64 \<Rightarrow> (kind \<times> float64, 'st) run" where
  "fl_log handler a = deliver handler (ieee_log (snd a))"

definition fl_sqrt :: "'st handler \<Rightarrow> kind \<times> float64 \<Rightarrow> (kind \<times> float64, 'st) run" where
  "fl_sqrt handler a = deliver handler (ieee_sqrt (snd a))"

definition fl_exp :: "'st handler \<Rightarrow> kind \<times> float64 \<Rightarrow> (kind \<times> float64, 'st) run" where
  "fl_exp handler a = deliver handler (ieee_exp (snd a))"

definition fl_cdf :: "(real \<Rightarrow> real) \<Rightarrow> kind \<times> float64 \<Rightarrow> kind \<times> float64" where
  "fl_cdf cdf a = (Numpy, ieee_cdf cdf (snd a))"



subsection \<open>The pricing function in floating point\<close>

text \<open>
  The statements of \<^verbatim>\<open>black_scholes\<close> again, operation by operation in the order in
  which Python evaluates them, on doubles and in a session.
\<close>

definition d1_run ::
  "'st handler \<Rightarrow> pyfloat \<Rightarrow> pyfloat \<Rightarrow> pyfloat \<Rightarrow> pyfloat \<Rightarrow> pyfloat \<Rightarrow> (kind \<times> float64, 'st) run" where
  "d1_run h S K T r sigma =
     and_then (fl_div h (as_value S) (as_value K)) (\<lambda>quotient.
     and_then (fl_log h quotient) (\<lambda>logarithm.
     and_then (fl_square h (as_value sigma)) (\<lambda>square.
     and_then (fl_div h square (Python, Finite 2)) (\<lambda>half.
     and_then (fl_add h (as_value r) half) (\<lambda>drift.
     and_then (fl_mul h drift (as_value T)) (\<lambda>drift_T.
     and_then (fl_add h logarithm drift_T) (\<lambda>numerator.
     and_then (fl_sqrt h (as_value T)) (\<lambda>root.
     and_then (fl_mul h (as_value sigma) root) (\<lambda>denominator.
       fl_div h numerator denominator)))))))))"

definition d2_run ::
  "'st handler \<Rightarrow> kind \<times> float64 \<Rightarrow> pyfloat \<Rightarrow> pyfloat \<Rightarrow> (kind \<times> float64, 'st) run" where
  "d2_run h d1 T sigma =
     and_then (fl_sqrt h (as_value T)) (\<lambda>root.
     and_then (fl_mul h (as_value sigma) root) (\<lambda>width.
       fl_sub h d1 width))"

text \<open>\<^verbatim>\<open>K * np.exp(-r * T)\<close>.\<close>

definition discounted_strike_run ::
  "'st handler \<Rightarrow> pyfloat \<Rightarrow> pyfloat \<Rightarrow> pyfloat \<Rightarrow> (kind \<times> float64, 'st) run" where
  "discounted_strike_run h K T r =
     and_then (fl_mul h (fl_neg (as_value r)) (as_value T)) (\<lambda>exponent.
     and_then (fl_exp h exponent) (\<lambda>discount.
       fl_mul h (as_value K) discount))"

definition call_run ::
  "'st handler \<Rightarrow> (real \<Rightarrow> real) \<Rightarrow> pyfloat \<Rightarrow> pyfloat \<Rightarrow> pyfloat \<Rightarrow> pyfloat
     \<Rightarrow> kind \<times> float64 \<Rightarrow> kind \<times> float64 \<Rightarrow> (kind \<times> float64, 'st) run" where
  "call_run h cdf S K T r d1 d2 =
     and_then (fl_mul h (as_value S) (fl_cdf cdf d1)) (\<lambda>first.
     and_then (discounted_strike_run h K T r) (\<lambda>strike.
     and_then (fl_mul h strike (fl_cdf cdf d2)) (\<lambda>second.
       fl_sub h first second)))"

definition put_run ::
  "'st handler \<Rightarrow> (real \<Rightarrow> real) \<Rightarrow> pyfloat \<Rightarrow> pyfloat \<Rightarrow> pyfloat \<Rightarrow> pyfloat
     \<Rightarrow> kind \<times> float64 \<Rightarrow> kind \<times> float64 \<Rightarrow> (kind \<times> float64, 'st) run" where
  "put_run h cdf S K T r d1 d2 =
     and_then (discounted_strike_run h K T r) (\<lambda>strike.
     and_then (fl_mul h strike (fl_cdf cdf (fl_neg d2))) (\<lambda>first.
     and_then (fl_mul h (as_value S) (fl_cdf cdf (fl_neg d1))) (\<lambda>second.
       fl_sub h first second)))"

definition black_scholes_run ::
  "'st handler \<Rightarrow> (real \<Rightarrow> real) \<Rightarrow> pyfloat \<Rightarrow> pyfloat \<Rightarrow> pyfloat \<Rightarrow> pyfloat \<Rightarrow> pyfloat \<Rightarrow> string
     \<Rightarrow> (float64, 'st) run" where
  "black_scholes_run h cdf S K T r sigma option_type =
     and_then (d1_run h S K T r sigma) (\<lambda>d1.
     and_then (d2_run h d1 T sigma) (\<lambda>d2.
     and_then
       (if option_type = ''call'' then call_run h cdf S K T r d1 d2
        else if option_type = ''put'' then put_run h cdf S K T r d1 d2
        else throw ValueError)
       (\<lambda>price. ret (snd price))))"

text \<open>
  The inputs on which no operation leaves the range of the doubles: every intermediate
  result of d1 and d2, and of the call and of the put price, fits.
\<close>

definition d_in_range :: "real \<Rightarrow> real \<Rightarrow> real \<Rightarrow> real \<Rightarrow> real \<Rightarrow> bool" where
  "d_in_range S K T r sigma \<longleftrightarrow>
     fits (S / K) \<and> fits (sigma\<^sup>2) \<and> fits (r + sigma\<^sup>2 / 2) \<and> fits ((r + sigma\<^sup>2 / 2) * T)
     \<and> fits (ln (S / K) + (r + sigma\<^sup>2 / 2) * T) \<and> fits (sigma * sqrt T)
     \<and> fits (spec_d1 S K T r sigma) \<and> fits (spec_d2 S K T r sigma)"

definition call_in_range :: "(real \<Rightarrow> real) \<Rightarrow> real \<Rightarrow> real \<Rightarrow> real \<Rightarrow> real \<Rightarrow> real \<Rightarrow> bool" where
  "call_in_range cdf S K T r sigma \<longleftrightarrow>
     fits (- r * T) \<and> fits (exp (- r * T)) \<and> fits (K * exp (- r * T))
     \<and> fits (S * cdf (spec_d1 S K T r sigma))
     \<and> fits (K * exp (- r * T) * cdf (spec_d2 S K T r sigma))
     \<and> fits (spec_call cdf S K T r sigma)"

definition put_in_range :: "(real \<Rightarrow> real) \<Rightarrow> real \<Rightarrow> real \<Rightarrow> real \<Rightarrow> real \<Rightarrow> real \<Rightarrow> bool" where
  "put_in_range cdf S K T r sigma \<longleftrightarrow>
     fits (- r * T) \<and> fits (exp (- r * T)) \<and> fits (K * exp (- r * T))
     \<and> fits (K * exp (- r * T) * cdf (- spec_d2 S K T r sigma))
     \<and> fits (S * cdf (- spec_d1 S K T r sigma))
     \<and> fits (spec_put cdf S K T r sigma)"

definition no_overflow :: "(real \<Rightarrow> real) \<Rightarrow> real \<Rightarrow> real \<Rightarrow> real \<Rightarrow> real \<Rightarrow> real \<Rightarrow> bool" where
  "no_overflow cdf S K T r sigma \<longleftrightarrow>
     d_in_range S K T r sigma \<and> call_in_range cdf S K T r sigma \<and> put_in_range cdf S K T r sigma"


subsection \<open>The redefinition and the volatility sweep in a session\<close>


text \<open>
  The list comprehension of the sweep cell: for each element \<^verbatim>\<open>s\<close> of \<^verbatim>\<open>sigmas\<close>, a
  \<^verbatim>\<open>numpy.float64\<close>, the global names \<^verbatim>\<open>S\<close>, \<^verbatim>\<open>K\<close>, \<^verbatim>\<open>T\<close> and \<^verbatim>\<open>r\<close> are looked up and
  the function that \<^verbatim>\<open>black_scholes\<close> is bound to, the parameter \<open>pricer\<close>, is called;
  the first exception ends the sweep.
\<close>

definition lookup_run :: "(string \<rightharpoonup> pyfloat) \<Rightarrow> string \<Rightarrow> (pyfloat, 'st) run" where
  "lookup_run globals x = (case globals x of None \<Rightarrow> throw NameError | Some v \<Rightarrow> ret v)"

primrec price_each_run ::
  "(pyfloat \<Rightarrow> pyfloat \<Rightarrow> pyfloat \<Rightarrow> pyfloat \<Rightarrow> pyfloat \<Rightarrow> string \<Rightarrow> (float64, 'st) run)
     \<Rightarrow> (string \<rightharpoonup> pyfloat) \<Rightarrow> real list \<Rightarrow> (float64 list, 'st) run" where
  "price_each_run pricer globals [] = ret []"
| "price_each_run pricer globals (s # ss) =
     and_then (lookup_run globals ''S'') (\<lambda>S.
     and_then (lookup_run globals ''K'') (\<lambda>K.
     and_then (lookup_run globals ''T'') (\<lambda>T.
     and_then (lookup_run globals ''r'') (\<lambda>r.
     and_then (pricer S K T r (NpFloat s) ''call'') (\<lambda>price.
     and_then (price_each_run pricer globals ss) (\<lambda>prices.
       ret (price # prices)))))))"

definition sweep_run ::
  "(pyfloat \<Rightarrow> pyfloat \<Rightarrow> pyfloat \<Rightarrow> pyfloat \<Rightarrow> pyfloat \<Rightarrow> string \<Rightarrow> (float64, 'st) run)
     \<Rightarrow> (string \<rightharpoonup> pyfloat) \<Rightarrow> (float64 list, 'st) run" where
  "sweep_run pricer globals = price_each_run pricer globals (linspace (1 / 10) (5 / 10) 100)"

subsection \<open>Distribution functions other than the exact one\<close>


definition bumped_cdf :: "real \<Rightarrow> real" where
  "bumped_cdf x = norm_cdf x + (if x = 7 / 20 then 1 / 10 ^ 8 else 0)"

definition rel_close :: "real \<Rightarrow> real \<Rightarrow> real \<Rightarrow> bool" where
  "rel_close a b tol \<longleftrightarrow> \<bar>a - b\<bar> \<le> tol * max \<bar>a\<bar> \<bar>b\<bar>"

section \<open>Analysis of the distribution function\<close>

subsection \<open>The series converges everywhere and is an antiderivative of the density\<close>

lemma gauss_coeff_bound: "norm (gauss_coeff n * y ^ n) \<le> inverse (fact n) * (\<bar>y\<bar>) ^ n"
proof -
  have "norm (gauss_coeff n * y ^ n) = \<bar>y\<bar> ^ n / (fact n * 2 ^ n * real (2 * n + 1))"
    by (simp add: gauss_coeff_def norm_mult norm_divide norm_power power_abs abs_mult)
  also have "\<dots> \<le> \<bar>y\<bar> ^ n / (fact n * 1 * 1)"
    by (intro divide_left_mono mult_mono mult_pos_pos) (auto simp: )
  finally show ?thesis by (simp add: field_simps)
qed

lemma summable_gauss: "summable (\<lambda>n. gauss_coeff n * y ^ n)"
  by (rule summable_comparison_test' [OF summable_exp [of "\<bar>y\<bar>"], of 0])
     (rule gauss_coeff_bound)

lemma DERIV_gauss_series:
  "DERIV gauss_series y :> (\<Sum>n. diffs gauss_coeff n * y ^ n)"
  unfolding gauss_series_def
  by (rule termdiffs_strong_converges_everywhere) (rule summable_gauss)

lemma cancel_odd_factor: "k \<noteq> 0 \<Longrightarrow> k * (a / (b * k)) = a / (b :: real)"
  by simp

lemma regroup_term: "a / (f * t) * p = (a * p / t) / (f :: real)"
  by simp

lemma gauss_term: "(2 * real n + 1) * gauss_coeff n * y ^ n = (- y / 2) ^ n /\<^sub>R fact n"
proof -
  define k where "k = 2 * real n + 1"
  define s :: real where "s = (- 1) ^ n"
  have nz: "k \<noteq> 0"
    using of_nat_0_le_iff [of n, where ?'a = real] unfolding k_def by linarith
  have "gauss_coeff n = s / ((fact n * 2 ^ n) * k)"
    by (simp add: gauss_coeff_def k_def s_def)
  then have "k * gauss_coeff n = s / (fact n * 2 ^ n)"
    using cancel_odd_factor [OF nz] by simp
  then have "k * gauss_coeff n * y ^ n = (s * y ^ n / 2 ^ n) / fact n"
    by (simp only: regroup_term)
  also have "s * y ^ n = (- y) ^ n"
    unfolding s_def by (rule power_minus [symmetric])
  also have "(- y) ^ n / 2 ^ n = (- y / 2) ^ n"
    by (rule power_divide [symmetric])
  also have "(- y / 2) ^ n / fact n = (- y / 2) ^ n /\<^sub>R fact n"
    by (simp add: inverse_eq_divide)
  finally show ?thesis
    by (simp only: k_def)
qed

lemma gauss_series_ode: "gauss_series y + 2 * y * (\<Sum>n. diffs gauss_coeff n * y ^ n) = exp (- y / 2)"
proof -
  have s1: "(\<lambda>n. gauss_coeff n * y ^ n) sums gauss_series y"
    unfolding gauss_series_def by (rule summable_sums [OF summable_gauss])
  have "summable (\<lambda>n. diffs gauss_coeff n * y ^ n)"
    using termdiff_converges_all [of gauss_coeff y] summable_gauss by blast
  then have "(\<lambda>n. diffs gauss_coeff n * y ^ n) sums (\<Sum>n. diffs gauss_coeff n * y ^ n)"
    by (rule summable_sums)
  then have "(\<lambda>n. 2 * y * (diffs gauss_coeff n * y ^ n)) sums (2 * y * (\<Sum>n. diffs gauss_coeff n * y ^ n))"
    by (rule sums_mult)
  then have "(\<lambda>n. 2 * real (Suc n) * gauss_coeff (Suc n) * y ^ Suc n) sums (2 * y * (\<Sum>n. diffs gauss_coeff n * y ^ n))"
    by (simp add: diffs_def mult_ac)
  then have s2: "(\<lambda>n. 2 * real n * gauss_coeff n * y ^ n) sums (2 * y * (\<Sum>n. diffs gauss_coeff n * y ^ n))"
    using sums_Suc_iff [of "\<lambda>n. 2 * real n * gauss_coeff n * y ^ n"] by simp
  have "(\<lambda>n. gauss_coeff n * y ^ n + 2 * real n * gauss_coeff n * y ^ n) sums
          (gauss_series y + 2 * y * (\<Sum>n. diffs gauss_coeff n * y ^ n))"
    by (rule sums_add [OF s1 s2])
  moreover have "gauss_coeff n * y ^ n + 2 * real n * gauss_coeff n * y ^ n = (- y / 2) ^ n /\<^sub>R fact n" for n
    using gauss_term [of n y] by (simp add: algebra_simps)
  ultimately have "(\<lambda>n. (- y / 2) ^ n /\<^sub>R fact n) sums (gauss_series y + 2 * y * (\<Sum>n. diffs gauss_coeff n * y ^ n))"
    by simp
  then show ?thesis
    using exp_converges [of "- y / 2"] sums_unique2 by blast
qed

lemma gauss_int_eq: "gauss_int x = x * gauss_series (x\<^sup>2)"
  by (simp add: gauss_int_def gauss_series_def)

lemma DERIV_gauss_int: "DERIV gauss_int x :> exp (- x\<^sup>2 / 2)"
proof -
  let ?d = "\<Sum>n. diffs gauss_coeff n * (x\<^sup>2) ^ n"
  have inner: "DERIV (\<lambda>x. gauss_series (x\<^sup>2)) x :> ?d * (2 * x)"
    by (rule DERIV_chain2 [OF DERIV_gauss_series]) (auto intro!: derivative_eq_intros)
  have "DERIV (\<lambda>x. x * gauss_series (x\<^sup>2)) x :> x * (?d * (2 * x)) + 1 * gauss_series (x\<^sup>2)"
    by (rule DERIV_mult' [OF DERIV_ident inner])
  moreover have "x * (?d * (2 * x)) + 1 * gauss_series (x\<^sup>2) = exp (- x\<^sup>2 / 2)"
    using gauss_series_ode [of "x\<^sup>2"] by (simp add: power2_eq_square algebra_simps)
  ultimately show ?thesis
    by (simp add: gauss_int_eq [abs_def])
qed

lemma gauss_int_minus: "gauss_int (- x) = - gauss_int x"
  by (simp add: gauss_int_def)

lemma gauss_int_0: "gauss_int 0 = 0"
  by (simp add: gauss_int_def)

lemma norm_cdf_minus: "norm_cdf (- x) = 1 - norm_cdf x"
  by (simp add: norm_cdf_def gauss_int_minus)


lemma DERIV_norm_cdf: "DERIV norm_cdf x :> norm_pdf x"
proof -
  have "DERIV (\<lambda>x. 1 / 2 + gauss_int x / sqrt (2 * pi)) x :> 0 + exp (- x\<^sup>2 / 2) / sqrt (2 * pi)"
    by (intro DERIV_add DERIV_const DERIV_cdivide DERIV_gauss_int)
  then show ?thesis
    by (simp add: norm_cdf_def [abs_def] norm_pdf_def)
qed

subsection \<open>Wallis integrals\<close>

lemma cos_int_0: "cos_int k 0 = 0"
  by (induction k "0::real" rule: cos_int.induct) simp_all

lemma DERIV_cos_int: "DERIV (cos_int k) x :> cos x ^ k"
proof (induction k x rule: cos_int.induct)
  case (1 x)
  show ?case by (simp add: cos_int.simps(1) [abs_def])
next
  case (2 x)
  have "cos_int (Suc 0) = sin" by (rule ext) simp
  then show ?case by simp
next
  case (3 k x)
  have eq: "cos_int (Suc (Suc k)) = (\<lambda>x. (cos x ^ Suc k * sin x + real (Suc k) * cos_int k x) / real (Suc (Suc k)))"
    by (rule ext) simp
  have "DERIV (\<lambda>x. cos x ^ Suc k) x :> real (Suc k) * cos x ^ k * (- sin x)"
    using DERIV_power [OF DERIV_cos, where n = "Suc k" and x = x] by (simp add: mult_ac)
  then have "DERIV (\<lambda>x. cos x ^ Suc k * sin x) x :> cos x ^ Suc k * cos x + (real (Suc k) * cos x ^ k * (- sin x)) * sin x"
    by (rule DERIV_mult' [OF _ DERIV_sin])
  then have "DERIV (\<lambda>x. (cos x ^ Suc k * sin x + real (Suc k) * cos_int k x) / real (Suc (Suc k))) x
      :> (cos x ^ Suc k * cos x + (real (Suc k) * cos x ^ k * (- sin x)) * sin x + real (Suc k) * cos x ^ k) / real (Suc (Suc k))"
    by (intro DERIV_cdivide DERIV_add DERIV_cmult "3.IH")
  moreover have "cos x ^ Suc k * cos x + (real (Suc k) * cos x ^ k * (- sin x)) * sin x + real (Suc k) * cos x ^ k
      = real (Suc (Suc k)) * cos x ^ Suc (Suc k)"
  proof -
    define m where "m = real (Suc k)"
    define p where "p = cos x ^ k"
    define c where "c = cos x"
    have m: "real (Suc (Suc k)) = m + 1" by (simp add: m_def)
    have "sin x * sin x = 1 - c * c"
      using sin_cos_squared_add [of x] by (simp add: power2_eq_square c_def)
    then have "(m * p * (- sin x)) * sin x = - (m * p * (1 - c * c))"
      by (simp add: mult.assoc)
    then have "c * p * c + (m * p * (- sin x)) * sin x + m * p = (m + 1) * (c * (c * p))"
      by (simp add: algebra_simps)
    then show ?thesis
      unfolding m m_def [symmetric] by (simp add: p_def c_def)
  qed
  ultimately show ?case
    by (simp only: eq) simp
qed

lemma wallis_0: "wallis 0 = pi / 2" and wallis_1: "wallis (Suc 0) = 1"
  by (simp_all add: wallis_def)

lemma wallis_Suc_Suc: "wallis (Suc (Suc k)) = real (Suc k) / real (Suc (Suc k)) * wallis k"
  by (simp add: wallis_def)

lemma wallis_pos: "0 < wallis k"
proof (induction k rule: induct_nat_012)
  case (ge2 n)
  then show ?case by (simp add: wallis_Suc_Suc)
qed (simp_all add: wallis_0 wallis_1)

lemma wallis_product: "real (Suc k) * wallis k * wallis (Suc k) = pi / 2"
proof (induction k)
  case 0
  show ?case by (simp add: wallis_0 wallis_1)
next
  case (Suc k)
  define a where "a = real (Suc (Suc k))"
  have a: "a \<noteq> 0" by (simp add: a_def)
  have "a * wallis (Suc k) * (real (Suc k) / a * wallis k) = real (Suc k) * wallis k * wallis (Suc k)"
    using a by (simp add: field_simps)
  then have "real (Suc (Suc k)) * wallis (Suc k) * wallis (Suc (Suc k))
      = real (Suc k) * wallis k * wallis (Suc k)"
    by (simp only: wallis_Suc_Suc a_def)
  then show ?case
    by (rule trans [OF _ Suc])
qed

lemma cos_int_mono:
  assumes "0 \<le> x" "x \<le> y" "y \<le> pi / 2"
  shows "cos_int k x \<le> cos_int k y"
proof (rule DERIV_nonneg_imp_nondecreasing [OF assms(2)])
  fix t assume "x \<le> t" "t \<le> y"
  then have "0 \<le> cos t"
    using assms by (intro cos_ge_zero) auto
  then show "\<exists>d. DERIV (cos_int k) t :> d \<and> 0 \<le> d"
    using DERIV_cos_int [of k t] by auto
qed

lemma cos_int_decreasing_in_k:
  assumes "0 \<le> x" "x \<le> pi / 2"
  shows "cos_int (Suc k) x \<le> cos_int k x"
proof -
  have "cos_int k 0 - cos_int (Suc k) 0 \<le> cos_int k x - cos_int (Suc k) x"
  proof (rule DERIV_nonneg_imp_nondecreasing [OF assms(1)])
    fix t assume t: "0 \<le> t" "t \<le> x"
    then have c: "0 \<le> cos t"
      using assms by (intro cos_ge_zero) auto
    have "DERIV (\<lambda>x. cos_int k x - cos_int (Suc k) x) t :> cos t ^ k - cos t ^ Suc k"
      by (intro DERIV_diff DERIV_cos_int)
    moreover have "cos t ^ Suc k \<le> cos t ^ k"
      using c cos_le_one [of t] by (simp add: mult_left_le_one_le)
    ultimately show "\<exists>d. DERIV (\<lambda>x. cos_int k x - cos_int (Suc k) x) t :> d \<and> 0 \<le> d"
      by (intro exI conjI) auto
  qed
  then show ?thesis by (simp add: cos_int_0)
qed

lemma wallis_decreasing: "wallis (Suc k) \<le> wallis k"
  unfolding wallis_def by (rule cos_int_decreasing_in_k) simp_all

lemma wallis_upper: "(wallis (Suc k))\<^sup>2 \<le> pi / (2 * real (Suc k))"
proof -
  have h: "wallis (Suc k) * wallis (Suc k) \<le> wallis k * wallis (Suc k)"
    by (intro mult_right_mono wallis_decreasing less_imp_le [OF wallis_pos])
  have "real (Suc k) * (wallis (Suc k) * wallis (Suc k)) \<le> real (Suc k) * (wallis k * wallis (Suc k))"
    by (rule mult_left_mono [OF h]) simp
  also have "\<dots> = pi / 2"
    using wallis_product [of k] by (simp add: mult.assoc)
  finally show ?thesis
    by (simp add: power2_eq_square field_simps)
qed

lemma wallis_lower: "pi / (2 * real (Suc k)) \<le> (wallis k)\<^sup>2"
proof -
  have h: "wallis k * wallis (Suc k) \<le> wallis k * wallis k"
    by (intro mult_left_mono wallis_decreasing less_imp_le [OF wallis_pos])
  have "real (Suc k) * (wallis k * wallis (Suc k)) \<le> real (Suc k) * (wallis k * wallis k)"
    by (rule mult_left_mono [OF h]) simp
  moreover have "real (Suc k) * (wallis k * wallis (Suc k)) = pi / 2"
    using wallis_product [of k] by (simp add: mult.assoc)
  ultimately show ?thesis
    by (simp add: power2_eq_square field_simps)
qed

subsection \<open>The Gaussian integral: the limits of the distribution function\<close>

lemma gauss_int_mono:
  assumes "x \<le> y"
  shows "gauss_int x \<le> gauss_int y"
proof (rule DERIV_nonneg_imp_nondecreasing [OF assms])
  fix t show "\<exists>d. DERIV gauss_int t :> d \<and> 0 \<le> d"
    using DERIV_gauss_int [of t] by (intro exI conjI) auto
qed

lemma gauss_int_nonneg: "0 \<le> x \<Longrightarrow> 0 \<le> gauss_int x"
  using gauss_int_mono [of 0 x] by (simp add: gauss_int_0)

lemma one_plus_power_le_exp:
  assumes "0 \<le> u"
  shows "(1 + u / real (Suc n)) ^ Suc n \<le> exp u"
proof -
  have "(1 + u / real (Suc n)) ^ Suc n \<le> exp (u / real (Suc n)) ^ Suc n"
    using assms by (intro power_mono exp_ge_add_one_self) (simp add: add_nonneg_nonneg)
  also have "\<dots> = exp (real (Suc n) * (u / real (Suc n)))"
    by (rule exp_of_nat_mult [symmetric])
  also have "real (Suc n) * (u / real (Suc n)) = u"
    by simp
  finally show ?thesis .
qed

lemma one_minus_power_le_exp:
  assumes "0 \<le> v" "v \<le> 1"
  shows "(1 - v) ^ n \<le> exp (- (real n * v))"
proof -
  have "(1 - v) ^ n \<le> exp (- v) ^ n"
    using assms exp_ge_add_one_self [of "- v"] by (intro power_mono) simp_all
  also have "\<dots> = exp (real n * (- v))"
    by (rule exp_of_nat_mult [symmetric])
  finally show ?thesis by simp
qed

lemma cos_arctan_power: "cos (arctan y) ^ (2 * n) = (1 / (1 + y\<^sup>2)) ^ n"
proof -
  have "0 \<le> 1 + y\<^sup>2" by (simp add: add_nonneg_nonneg)
  then have "(cos (arctan y))\<^sup>2 = 1 / (1 + y\<^sup>2)"
    by (simp add: cos_arctan power_divide)
  then show ?thesis
    by (simp add: power_mult)
qed

text \<open>Upper bound: substitute \<open>t = c * tan \<theta>\<close>.\<close>

lemma gauss_int_le_wallis:
  assumes "0 \<le> x"
  shows "gauss_int x \<le> sqrt (2 * real (Suc n)) * wallis (2 * n)"
proof -
  define c where "c = sqrt (2 * real (Suc n))"
  have c: "0 < c" and c2: "c * c = 2 * real (Suc n)"
    by (simp_all add: c_def)
  define H where "H = (\<lambda>x. c * cos_int (2 * n) (arctan (x / c)) - gauss_int x)"
  have "H 0 \<le> H x"
  proof (rule DERIV_nonneg_imp_nondecreasing [OF assms])
    fix t :: real
    define q where "q = 1 + (t / c)\<^sup>2"
    have q: "0 < q" by (simp add: q_def add_pos_nonneg)
    have "DERIV (\<lambda>x. arctan (x / c)) t :> inverse q * (1 / c)"
      unfolding q_def by (rule DERIV_chain2 [OF DERIV_arctan]) (rule DERIV_cdivide [OF DERIV_ident])
    then have "DERIV (\<lambda>x. cos_int (2 * n) (arctan (x / c))) t :> cos (arctan (t / c)) ^ (2 * n) * (inverse q * (1 / c))"
      by (rule DERIV_chain2 [OF DERIV_cos_int])
    then have dH: "DERIV H t :> c * (cos (arctan (t / c)) ^ (2 * n) * (inverse q * (1 / c))) - exp (- t\<^sup>2 / 2)"
      unfolding H_def by (intro DERIV_diff DERIV_cmult DERIV_gauss_int)
    have "c * (cos (arctan (t / c)) ^ (2 * n) * (inverse q * (1 / c))) = (1 / q) ^ n * (1 / q)"
      using c by (simp add: cos_arctan_power q_def [symmetric] inverse_eq_divide)
    also have "\<dots> = 1 / q ^ Suc n"
      by (simp add: power_divide)
    finally have eq: "c * (cos (arctan (t / c)) ^ (2 * n) * (inverse q * (1 / c))) = 1 / q ^ Suc n" .
    have "(t / c)\<^sup>2 = (t\<^sup>2 / 2) / real (Suc n)"
      using c2 by (simp add: power2_eq_square)
    then have "q ^ Suc n \<le> exp (t\<^sup>2 / 2)"
      unfolding q_def using one_plus_power_le_exp [of "t\<^sup>2 / 2" n] by simp
    then have "exp (- t\<^sup>2 / 2) \<le> 1 / q ^ Suc n"
      using q by (simp add: exp_minus field_simps)
    then show "\<exists>d. DERIV H t :> d \<and> 0 \<le> d"
      using dH unfolding eq by (intro exI conjI) auto
  qed
  then have "gauss_int x \<le> c * cos_int (2 * n) (arctan (x / c))"
    by (simp add: H_def cos_int_0 gauss_int_0)
  also have "cos_int (2 * n) (arctan (x / c)) \<le> cos_int (2 * n) (pi / 2)"
    using assms c arctan_ubound [of "x / c"] by (intro cos_int_mono) simp_all
  then have "c * cos_int (2 * n) (arctan (x / c)) \<le> c * wallis (2 * n)"
    using c by (simp add: wallis_def)
  finally show ?thesis by (simp add: c_def)
qed

text \<open>Lower bound: substitute \<open>t = c * sin \<theta>\<close>.\<close>

lemma gauss_int_ge_wallis:
  "sqrt (2 * real n) * wallis (2 * n + 1) \<le> gauss_int (sqrt (2 * real n))"
proof -
  define c where "c = sqrt (2 * real n)"
  have c: "0 \<le> c" and c2: "c * c = 2 * real n"
    by (simp_all add: c_def)
  define H where "H = (\<lambda>x. gauss_int (c * sin x) - c * cos_int (2 * n + 1) x)"
  have "H 0 \<le> H (pi / 2)"
  proof (rule DERIV_nonneg_imp_nondecreasing [where f = H and a = 0 and b = "pi / 2"])
    fix t :: real assume t: "0 \<le> t" "t \<le> pi / 2"
    have ct: "0 \<le> cos t" using t by (intro cos_ge_zero) auto
    have "DERIV (\<lambda>x. gauss_int (c * sin x)) t :> exp (- (c * sin t)\<^sup>2 / 2) * (c * cos t)"
      by (rule DERIV_chain2 [OF DERIV_gauss_int]) (rule DERIV_cmult [OF DERIV_sin])
    then have dH: "DERIV H t :> exp (- (c * sin t)\<^sup>2 / 2) * (c * cos t) - c * cos t ^ (2 * n + 1)"
      unfolding H_def by (intro DERIV_diff DERIV_cmult DERIV_cos_int)
    have "(c * sin t)\<^sup>2 / 2 = real n * (sin t)\<^sup>2"
      using c2 by (simp add: power2_eq_square)
    then have e: "exp (- (c * sin t)\<^sup>2 / 2) = exp (- (real n * (sin t)\<^sup>2))"
      by simp
    have "(cos t)\<^sup>2 = 1 - (sin t)\<^sup>2"
      using sin_cos_squared_add [of t] by linarith
    then have "cos t ^ (2 * n) = (1 - (sin t)\<^sup>2) ^ n"
      by (simp add: power_mult)
    also have "\<dots> \<le> exp (- (real n * (sin t)\<^sup>2))"
    proof (rule one_minus_power_le_exp)
      show "(sin t)\<^sup>2 \<le> 1"
        using sin_cos_squared_add [of t] zero_le_power2 [of "cos t"] by linarith
    qed simp
    finally have "cos t ^ (2 * n) * (c * cos t) \<le> exp (- (c * sin t)\<^sup>2 / 2) * (c * cos t)"
      unfolding e using c ct by (intro mult_right_mono) simp_all
    then have "0 \<le> exp (- (c * sin t)\<^sup>2 / 2) * (c * cos t) - c * cos t ^ (2 * n + 1)"
      by (simp add: mult_ac)
    then show "\<exists>d. DERIV H t :> d \<and> 0 \<le> d"
      using dH by blast
  qed simp
  then show ?thesis
    by (simp add: H_def cos_int_0 gauss_int_0 wallis_def c_def)
qed

lemma gauss_int_sq_upper:
  assumes "0 \<le> x"
  shows "(gauss_int x)\<^sup>2 \<le> pi / 2 * (1 + inverse (real (Suc n)))"
proof -
  have w: "(wallis (2 * Suc n))\<^sup>2 \<le> pi / (2 * real (2 * Suc n))"
    using wallis_upper [of "Suc (2 * n)"] by simp
  have "gauss_int x \<le> sqrt (2 * real (Suc (Suc n))) * wallis (2 * Suc n)"
    by (rule gauss_int_le_wallis [OF assms])
  then have "(gauss_int x)\<^sup>2 \<le> (sqrt (2 * real (Suc (Suc n))) * wallis (2 * Suc n))\<^sup>2"
    using gauss_int_nonneg [OF assms] by (intro power_mono) simp_all
  also have "\<dots> = (2 * real (Suc (Suc n))) * (wallis (2 * Suc n))\<^sup>2"
    by (simp add: power_mult_distrib)
  also have "\<dots> \<le> (2 * real (Suc (Suc n))) * (pi / (2 * real (2 * Suc n)))"
    by (rule mult_left_mono [OF w]) simp
  also have "\<dots> = pi / 2 * (1 + inverse (real (Suc n)))"
    by (simp add: field_simps)
  finally show ?thesis .
qed

lemma gauss_int_le_limit:
  assumes "0 \<le> x"
  shows "gauss_int x \<le> sqrt (pi / 2)"
proof -
  have "(\<lambda>n. pi / 2 * (1 + inverse (real (Suc n)))) \<longlonglongrightarrow> pi / 2 * (1 + 0)"
    by (intro tendsto_intros LIMSEQ_inverse_real_of_nat)
  then have "(gauss_int x)\<^sup>2 \<le> pi / 2 * (1 + 0)"
    by (rule LIMSEQ_le_const) (use gauss_int_sq_upper [OF assms] in blast)
  then show ?thesis
    by (intro real_le_rsqrt) simp
qed

lemma gauss_int_sq_lower:
  "pi / 2 * (1 - inverse (real (Suc n))) \<le> (gauss_int (sqrt (2 * real n)))\<^sup>2"
proof -
  have w: "pi / (2 * real (Suc (2 * n + 1))) \<le> (wallis (2 * n + 1))\<^sup>2"
    by (rule wallis_lower)
  have "pi / 2 * (1 - inverse (real (Suc n))) = (2 * real n) * (pi / (2 * real (Suc (2 * n + 1))))"
    by (simp add: field_simps)
  also have "\<dots> \<le> (2 * real n) * (wallis (2 * n + 1))\<^sup>2"
    by (rule mult_left_mono [OF w]) simp
  also have "\<dots> = (sqrt (2 * real n) * wallis (2 * n + 1))\<^sup>2"
    by (simp add: power_mult_distrib)
  also have "\<dots> \<le> (gauss_int (sqrt (2 * real n)))\<^sup>2"
    using wallis_pos [of "2 * n + 1"] by (intro power_mono gauss_int_ge_wallis) simp
  finally show ?thesis .
qed

lemma gauss_int_at_top: "(gauss_int \<longlongrightarrow> sqrt (pi / 2)) at_top"
proof (rule order_tendstoI)
  fix a :: real assume a: "a < sqrt (pi / 2)"
  define b where "b = max a 0"
  have "b < sqrt (pi / 2)" "0 \<le> b"
    using a by (simp_all add: b_def)
  then have "b\<^sup>2 < (sqrt (pi / 2))\<^sup>2"
    by (intro power_strict_mono) simp_all
  then have b2: "b\<^sup>2 < pi / 2 * (1 - 0)" by simp
  have "(\<lambda>n. pi / 2 * (1 - inverse (real (Suc n)))) \<longlonglongrightarrow> pi / 2 * (1 - 0)"
    by (intro tendsto_intros LIMSEQ_inverse_real_of_nat)
  then have "eventually (\<lambda>n. b\<^sup>2 < pi / 2 * (1 - inverse (real (Suc n)))) sequentially"
    using b2 by (rule order_tendstoD)
  then obtain n where n: "b\<^sup>2 < pi / 2 * (1 - inverse (real (Suc n)))"
    by (auto simp: eventually_sequentially)
  define x0 where "x0 = sqrt (2 * real n)"
  have "b\<^sup>2 < (gauss_int x0)\<^sup>2"
    using n gauss_int_sq_lower [of n] by (simp add: x0_def)
  moreover have "0 \<le> gauss_int x0"
    by (rule gauss_int_nonneg) (simp add: x0_def)
  ultimately have "b < gauss_int x0"
    using \<open>0 \<le> b\<close> by (simp add: power2_less_imp_less)
  then have "a < gauss_int x" if "x0 \<le> x" for x
    using gauss_int_mono [OF that] by (simp add: b_def)
  then show "eventually (\<lambda>x. a < gauss_int x) at_top"
    using eventually_ge_at_top [of x0] by (rule eventually_mono [rotated]) 
next
  fix a :: real assume a: "sqrt (pi / 2) < a"
  have "gauss_int x < a" if "0 \<le> x" for x
    using gauss_int_le_limit [OF that] a by simp
  then show "eventually (\<lambda>x. gauss_int x < a) at_top"
    using eventually_ge_at_top [of "0::real"] by (rule eventually_mono [rotated])
qed

lemma norm_cdf_at_top: "(norm_cdf \<longlongrightarrow> 1) at_top"
proof -
  have "((\<lambda>x. 1 / 2 + gauss_int x / sqrt (2 * pi)) \<longlongrightarrow> 1 / 2 + sqrt (pi / 2) / sqrt (2 * pi)) at_top"
    by (intro tendsto_intros gauss_int_at_top) simp
  moreover have "sqrt (pi / 2) / sqrt (2 * pi) = 1 / 2"
  proof -
    have "sqrt (pi / 2) / sqrt (2 * pi) = sqrt ((pi / 2) / (2 * pi))"
      by (rule real_sqrt_divide [symmetric])
    also have "(pi / 2) / (2 * pi) = (1 / 2)\<^sup>2"
      by (simp add: power2_eq_square)
    finally show ?thesis by (simp del: power_divide)
  qed
  ultimately show ?thesis
    by (simp add: norm_cdf_def [abs_def])
qed

lemma norm_cdf_at_bot: "(norm_cdf \<longlongrightarrow> 0) at_bot"
proof -
  have "((\<lambda>x. norm_cdf (- x)) \<longlongrightarrow> 1) at_bot"
    using norm_cdf_at_top by (simp add: filterlim_at_top_mirror)
  then have "((\<lambda>x. 1 - norm_cdf (- x)) \<longlongrightarrow> 1 - 1) at_bot"
    by (intro tendsto_intros)
  then show ?thesis
    using norm_cdf_minus [of "- x" for x] by (simp add: norm_cdf_minus)
qed

lemma norm_cdf_mono: "x \<le> y \<Longrightarrow> norm_cdf x \<le> norm_cdf y"
  by (simp add: norm_cdf_def gauss_int_mono divide_right_mono)

lemma norm_cdf_nonneg: "0 \<le> norm_cdf x"
proof (rule tendsto_upperbound [OF norm_cdf_at_bot])
  show "eventually (\<lambda>t. norm_cdf t \<le> norm_cdf x) at_bot"
    using eventually_le_at_bot [of x] by (rule eventually_mono) (rule norm_cdf_mono)
qed simp

lemma norm_cdf_le_1: "norm_cdf x \<le> 1"
  using norm_cdf_nonneg [of "- x"] by (simp add: norm_cdf_minus)

subsection \<open>d1, d2 and the derivative of the call price in the volatility\<close>

lemma spec_d1_alt:
  assumes "0 < T" "0 < sigma"
  shows "spec_d1 S K T r sigma = (ln (S / K) + r * T) / sqrt T / sigma + sigma * sqrt T / 2"
proof -
  define u where "u = sqrt T"
  define L where "L = ln (S / K)"
  have u: "0 < u" and T: "T = u * u"
    using assms by (simp_all add: u_def)
  have "(L + (r + sigma\<^sup>2 / 2) * (u * u)) / (sigma * u) = (L + r * (u * u)) / u / sigma + sigma * u / 2"
    using u assms(2) by (simp add: field_simps power2_eq_square)
  then show ?thesis
    unfolding spec_d1_def L_def [symmetric] u_def [symmetric] T [symmetric] .
qed

lemma spec_d2_alt:
  assumes "0 < T" "0 < sigma"
  shows "spec_d2 S K T r sigma = (ln (S / K) + r * T) / sqrt T / sigma - sigma * sqrt T / 2"
  by (simp add: spec_d2_def spec_d1_alt [OF assms])

lemma norm_pdf_ratio:
  "norm_pdf (x - b) = norm_pdf (x + b) * exp (2 * x * b)"
proof -
  have "- (x - b)\<^sup>2 / 2 = - (x + b)\<^sup>2 / 2 + 2 * x * b"
    by (simp add: power2_eq_square field_simps)
  then have "exp (- (x - b)\<^sup>2 / 2) = exp (- (x + b)\<^sup>2 / 2) * exp (2 * x * b)"
    by (simp only: exp_add)
  then show ?thesis
    by (simp add: norm_pdf_def)
qed

lemma vega_balance:
  assumes "0 < S" "0 < K" "0 < T" "0 < sigma"
  shows "K * exp (- r * T) * norm_pdf (spec_d2 S K T r sigma) = S * norm_pdf (spec_d1 S K T r sigma)"
proof -
  define a where "a = (ln (S / K) + r * T) / sqrt T"
  define b where "b = sigma * sqrt T / 2"
  have d1: "spec_d1 S K T r sigma = a / sigma + b" and d2: "spec_d2 S K T r sigma = a / sigma - b"
    using spec_d1_alt [OF assms(3,4)] spec_d2_alt [OF assms(3,4)] by (simp_all add: a_def b_def)
  have "2 * (a / sigma) * b = ln (S / K) + r * T"
    using assms by (simp add: a_def b_def)
  then have "exp (2 * (a / sigma) * b) = S / K * exp (r * T)"
    using assms by (simp add: exp_add)
  then have "K * exp (- r * T) * norm_pdf (a / sigma - b) = K * exp (- r * T) * (norm_pdf (a / sigma + b) * (S / K * exp (r * T)))"
    by (simp add: norm_pdf_ratio)
  also have "\<dots> = S * norm_pdf (a / sigma + b) * (exp (- r * T) * exp (r * T))"
    using assms by simp
  also have "exp (- r * T) * exp (r * T) = 1"
    by (simp add: exp_add [symmetric])
  finally show ?thesis by (simp add: d1 d2)
qed


lemma DERIV_spec_call_sigma:
  assumes "0 < S" "0 < K" "0 < T" "0 < sigma"
  shows "DERIV (\<lambda>s. spec_call norm_cdf S K T r s) sigma :> S * norm_pdf (spec_d1 S K T r sigma) * sqrt T"
proof -
  define a where "a = (ln (S / K) + r * T) / sqrt T"
  define h where "h = sqrt T / 2"
  define K' where "K' = K * exp (- r * T)"
  define g where "g = (\<lambda>s. S * norm_cdf (a / s + s * h) - K' * norm_cdf (a / s - s * h))"
  have d1: "spec_d1 S K T r s = a / s + s * h" and d2: "spec_d2 S K T r s = a / s - s * h" if "0 < s" for s
    using spec_d1_alt [OF assms(3) that] spec_d2_alt [OF assms(3) that] by (simp_all add: a_def h_def)
  have bal: "K' * norm_pdf (a / sigma - sigma * h) = S * norm_pdf (a / sigma + sigma * h)"
    using vega_balance [OF assms, of r] d1 [OF assms(4)] d2 [OF assms(4)] by (simp add: K'_def)
  have i1: "DERIV (\<lambda>s. a / s + s * h) sigma :> - a / sigma\<^sup>2 + h"
    using assms(4) by (auto intro!: derivative_eq_intros simp: power2_eq_square)
  have i2: "DERIV (\<lambda>s. a / s - s * h) sigma :> - a / sigma\<^sup>2 - h"
    using assms(4) by (auto intro!: derivative_eq_intros simp: power2_eq_square)
  have c1: "DERIV (\<lambda>s. norm_cdf (a / s + s * h)) sigma :> norm_pdf (a / sigma + sigma * h) * (- a / sigma\<^sup>2 + h)"
    by (rule DERIV_chain2 [OF DERIV_norm_cdf i1])
  have c2: "DERIV (\<lambda>s. norm_cdf (a / s - s * h)) sigma :> norm_pdf (a / sigma - sigma * h) * (- a / sigma\<^sup>2 - h)"
    by (rule DERIV_chain2 [OF DERIV_norm_cdf i2])
  define E where "E = S * (norm_pdf (a / sigma + sigma * h) * (- a / sigma\<^sup>2 + h))
                        - K' * (norm_pdf (a / sigma - sigma * h) * (- a / sigma\<^sup>2 - h))"
  have dg0: "DERIV g sigma :> E"
    unfolding g_def E_def by (intro DERIV_diff DERIV_cmult c1 c2)
  have "E = S * norm_pdf (a / sigma + sigma * h) * (- a / sigma\<^sup>2 + h)
                        - (K' * norm_pdf (a / sigma - sigma * h)) * (- a / sigma\<^sup>2 - h)"
    by (simp add: E_def)
  also have "\<dots> = S * norm_pdf (a / sigma + sigma * h) * (2 * h)"
    unfolding bal by (simp add: algebra_simps)
  also have "\<dots> = S * norm_pdf (spec_d1 S K T r sigma) * sqrt T"
    by (simp add: d1 [OF assms(4)] h_def)
  finally have dg: "DERIV g sigma :> S * norm_pdf (spec_d1 S K T r sigma) * sqrt T"
    using dg0 by simp
  have "eventually (\<lambda>s. s \<in> {0<..}) (nhds sigma)"
    using assms(4) by (intro eventually_nhds_in_open) auto
  then have ev: "eventually (\<lambda>s. spec_call norm_cdf S K T r s = g s) (nhds sigma)"
    by eventually_elim (simp add: spec_call_def g_def d1 d2 K'_def)
  show ?thesis
    using dg DERIV_cong_ev [OF refl ev refl] by simp
qed


lemma put_call_parity:
  "spec_call norm_cdf S K T r sigma - spec_put norm_cdf S K T r sigma = S - K * exp (- r * T)"
  by (simp add: spec_call_def spec_put_def norm_cdf_minus algebra_simps)

subsection \<open>Prices are not negative\<close>

lemma linear_at_bot:
  assumes "0 < s"
  shows "filterlim (\<lambda>m :: real. m / s + c) at_bot at_bot"
  unfolding filterlim_at_bot
proof
  fix Z :: real
  have "m / s + c \<le> Z" if "m \<le> (Z - c) * s" for m
    using that assms by (simp add: field_simps)
  then show "eventually (\<lambda>m. m / s + c \<le> Z) at_bot"
    using eventually_le_at_bot [of "(Z - c) * s"] by (rule eventually_mono [rotated])
qed

lemma call_core_nonneg:
  assumes "0 < s"
  shows "0 \<le> exp m * norm_cdf (m / s + s / 2) - norm_cdf (m / s - s / 2)"
proof -
  define g where "g = (\<lambda>m. exp m * norm_cdf (m / s + s / 2) - norm_cdf (m / s - s / 2))"
  have dg: "DERIV g t :> exp t * norm_cdf (t / s + s / 2)" for t
  proof -
    have i1: "DERIV (\<lambda>m. m / s + s / 2) t :> 1 / s + 0"
      by (intro DERIV_add DERIV_cdivide DERIV_ident DERIV_const)
    have i2: "DERIV (\<lambda>m. m / s - s / 2) t :> 1 / s - 0"
      by (intro DERIV_diff DERIV_cdivide DERIV_ident DERIV_const)
    have c1: "DERIV (\<lambda>m. norm_cdf (m / s + s / 2)) t :> norm_pdf (t / s + s / 2) * (1 / s + 0)"
      by (rule DERIV_chain2 [OF DERIV_norm_cdf i1])
    have c2: "DERIV (\<lambda>m. norm_cdf (m / s - s / 2)) t :> norm_pdf (t / s - s / 2) * (1 / s - 0)"
      by (rule DERIV_chain2 [OF DERIV_norm_cdf i2])
    have "DERIV g t :> (exp t * (norm_pdf (t / s + s / 2) * (1 / s + 0)) + exp t * norm_cdf (t / s + s / 2))
                        - norm_pdf (t / s - s / 2) * (1 / s - 0)"
      unfolding g_def by (intro DERIV_diff DERIV_mult' DERIV_exp c1 c2)
    moreover have "norm_pdf (t / s - s / 2) = norm_pdf (t / s + s / 2) * exp t"
      using norm_pdf_ratio [of "t / s" "s / 2"] assms by simp
    ultimately show ?thesis
      by (simp add: algebra_simps)
  qed
  have mono: "g a \<le> g b" if "a \<le> b" for a b
  proof (rule DERIV_nonneg_imp_nondecreasing [OF that])
    fix t
    have "0 \<le> exp t * norm_cdf (t / s + s / 2)"
      by (simp add: norm_cdf_nonneg)
    then show "\<exists>d. DERIV g t :> d \<and> 0 \<le> d"
      using dg [of t] by blast
  qed
  have l1: "((\<lambda>m. norm_cdf (m / s + s / 2)) \<longlongrightarrow> 0) at_bot"
    by (rule filterlim_compose [OF norm_cdf_at_bot linear_at_bot [OF assms]])
  have l2: "((\<lambda>m. norm_cdf (m / s - s / 2)) \<longlongrightarrow> 0) at_bot"
    using filterlim_compose [OF norm_cdf_at_bot linear_at_bot [OF assms, of "- (s / 2)"]] by simp
  have "((\<lambda>m. exp m * norm_cdf (m / s + s / 2) - norm_cdf (m / s - s / 2)) \<longlongrightarrow> 0 * 0 - 0) at_bot"
    by (intro tendsto_diff tendsto_mult exp_at_bot l1 l2)
  then have lim: "(g \<longlongrightarrow> 0) at_bot"
    by (simp add: g_def)
  have "0 \<le> g m"
  proof (rule tendsto_upperbound [OF lim])
    show "eventually (\<lambda>t. g t \<le> g m) at_bot"
      using eventually_le_at_bot [of m] by (rule eventually_mono) (rule mono)
  qed simp
  then show ?thesis by (simp add: g_def)
qed

lemma spec_call_factor:
  fixes S K T r sigma :: real
  assumes "0 < S" "0 < K" "0 < T" "0 < sigma"
  defines "m \<equiv> ln (S / K) + r * T" and "s \<equiv> sigma * sqrt T"
  shows "spec_call norm_cdf S K T r sigma
           = K * exp (- r * T) * (exp m * norm_cdf (m / s + s / 2) - norm_cdf (m / s - s / 2))"
proof -
  have "exp m = S / K * exp (r * T)"
    using assms by (simp add: m_def exp_add)
  then have "K * exp (- r * T) * exp m = S * (exp (- r * T) * exp (r * T))"
    using assms by simp
  also have "exp (- r * T) * exp (r * T) = 1"
    by (simp add: exp_add [symmetric])
  finally have S: "K * exp (- r * T) * exp m = S" by simp
  have d1: "spec_d1 S K T r sigma = m / s + s / 2" and d2: "spec_d2 S K T r sigma = m / s - s / 2"
    using spec_d1_alt [OF assms(3,4), of S K r] spec_d2_alt [OF assms(3,4), of S K r]
    by (simp_all add: m_def s_def mult.commute)
  have "K * exp (- r * T) * (exp m * norm_cdf (m / s + s / 2) - norm_cdf (m / s - s / 2))
      = (K * exp (- r * T) * exp m) * norm_cdf (m / s + s / 2) - K * exp (- r * T) * norm_cdf (m / s - s / 2)"
    by (simp add: algebra_simps)
  then show ?thesis
    unfolding S by (simp add: spec_call_def d1 d2)
qed

lemma spec_put_factor:
  fixes S K T r sigma :: real
  assumes "0 < S" "0 < K" "0 < T" "0 < sigma"
  defines "m \<equiv> - (ln (S / K) + r * T)" and "s \<equiv> sigma * sqrt T"
  shows "spec_put norm_cdf S K T r sigma
           = S * (exp m * norm_cdf (m / s + s / 2) - norm_cdf (m / s - s / 2))"
proof -
  have "m = - ln (S / K) + (- r * T)"
    by (simp add: m_def)
  then have "exp m = exp (- ln (S / K)) * exp (- r * T)"
    by (simp only: exp_add)
  also have "exp (- ln (S / K)) = K / S"
    using assms by (simp add: exp_minus)
  finally have K: "S * exp m = K * exp (- r * T)"
    using assms by simp
  define m0 where "m0 = ln (S / K) + r * T"
  have m: "m = - m0" by (simp add: m_def m0_def)
  have "spec_d1 S K T r sigma = m0 / s + s / 2" and "spec_d2 S K T r sigma = m0 / s - s / 2"
    using spec_d1_alt [OF assms(3,4), of S K r] spec_d2_alt [OF assms(3,4), of S K r]
    by (simp_all add: m0_def s_def mult.commute)
  then have d1: "- spec_d1 S K T r sigma = m / s - s / 2" and d2: "- spec_d2 S K T r sigma = m / s + s / 2"
    by (simp_all add: m)
  have "S * (exp m * norm_cdf (m / s + s / 2) - norm_cdf (m / s - s / 2))
      = (S * exp m) * norm_cdf (m / s + s / 2) - S * norm_cdf (m / s - s / 2)"
    by (simp add: algebra_simps)
  then show ?thesis
    unfolding K by (simp add: spec_put_def d1 d2)
qed

lemma spec_call_nonneg:
  assumes "0 < S" "0 < K" "0 < T" "0 < sigma"
  shows "0 \<le> spec_call norm_cdf S K T r sigma"
proof -
  have "0 < sigma * sqrt T" using assms by simp
  then show ?thesis
    unfolding spec_call_factor [OF assms] using assms(2)
    by (intro mult_nonneg_nonneg call_core_nonneg) simp_all
qed

lemma spec_put_nonneg:
  assumes "0 < S" "0 < K" "0 < T" "0 < sigma"
  shows "0 \<le> spec_put norm_cdf S K T r sigma"
proof -
  have "0 < sigma * sqrt T" using assms by simp
  then show ?thesis
    unfolding spec_put_factor [OF assms] using assms(1)
    by (intro mult_nonneg_nonneg call_core_nonneg) simp_all
qed

subsection \<open>The limit of the prices as the maturity goes to 0\<close>





subsection \<open>Numerical bounds\<close>

text \<open>
  Polynomial bounds for \<open>exp (- u)\<close>, \<open>gauss_int\<close> and \<open>arctan\<close> on the non-negative
  reals, each from the sign of a derivative; bounds for \<open>pi\<close> from Machin's formula.
\<close>

lemma nondecreasing_from_0:
  fixes f :: "real \<Rightarrow> real"
  assumes "0 \<le> x" "f 0 = 0"
    and "\<And>t. 0 \<le> t \<Longrightarrow> \<exists>d. DERIV f t :> d \<and> 0 \<le> d"
  shows "0 \<le> f x"
proof -
  have "f 0 \<le> f x"
    by (rule DERIV_nonneg_imp_nondecreasing [OF assms(1)]) (rule assms(3))
  then show ?thesis by (simp add: assms(2))
qed

lemma exp_minus_ge_1: "1 - u \<le> exp (- u)" for u :: real
  using exp_ge_add_one_self [of "- u"] by simp

lemma exp_minus_le_2:
  fixes u :: real
  assumes "0 \<le> u"
  shows "exp (- u) \<le> 1 - u + u\<^sup>2 / 2"
proof -
  define f where "f = (\<lambda>u :: real. 1 - u + u\<^sup>2 / 2 - exp (- u))"
  have "0 \<le> f u"
  proof (rule nondecreasing_from_0 [OF assms])
    fix t :: real
    have "DERIV f t :> 0 - 1 + 2 * t / 2 - exp (- t) * (- 1)"
      unfolding f_def by (auto intro!: derivative_eq_intros)
    moreover have "0 \<le> 0 - 1 + 2 * t / 2 - exp (- t) * (- 1)"
      using exp_minus_ge_1 [of t] by simp
    ultimately show "\<exists>d. DERIV f t :> d \<and> 0 \<le> d" by blast
  qed (simp add: f_def)
  then show ?thesis by (simp add: f_def)
qed

lemma exp_minus_ge_3:
  fixes u :: real
  assumes "0 \<le> u"
  shows "1 - u + u\<^sup>2 / 2 - u ^ 3 / 6 \<le> exp (- u)"
proof -
  define f where "f = (\<lambda>u :: real. exp (- u) - (1 - u + u\<^sup>2 / 2 - u ^ 3 / 6))"
  have "0 \<le> f u"
  proof (rule nondecreasing_from_0 [OF assms])
    fix t :: real assume t: "0 \<le> t"
    have "DERIV f t :> exp (- t) * (- 1) - (0 - 1 + 2 * t / 2 - 3 * t\<^sup>2 / 6)"
      unfolding f_def by (auto intro!: derivative_eq_intros)
    moreover have "0 \<le> exp (- t) * (- 1) - (0 - 1 + 2 * t / 2 - 3 * t\<^sup>2 / 6)"
      using exp_minus_le_2 [OF t] by simp
    ultimately show "\<exists>d. DERIV f t :> d \<and> 0 \<le> d" by blast
  qed (simp add: f_def)
  then show ?thesis by (simp add: f_def)
qed

lemma exp_minus_le_4:
  fixes u :: real
  assumes "0 \<le> u"
  shows "exp (- u) \<le> 1 - u + u\<^sup>2 / 2 - u ^ 3 / 6 + u ^ 4 / 24"
proof -
  define f where "f = (\<lambda>u :: real. 1 - u + u\<^sup>2 / 2 - u ^ 3 / 6 + u ^ 4 / 24 - exp (- u))"
  have "0 \<le> f u"
  proof (rule nondecreasing_from_0 [OF assms])
    fix t :: real assume t: "0 \<le> t"
    have "DERIV f t :> 0 - 1 + 2 * t / 2 - 3 * t\<^sup>2 / 6 + 4 * t ^ 3 / 24 - exp (- t) * (- 1)"
      unfolding f_def by (auto intro!: derivative_eq_intros)
    moreover have "0 \<le> 0 - 1 + 2 * t / 2 - 3 * t\<^sup>2 / 6 + 4 * t ^ 3 / 24 - exp (- t) * (- 1)"
      using exp_minus_ge_3 [OF t] by simp
    ultimately show "\<exists>d. DERIV f t :> d \<and> 0 \<le> d" by blast
  qed (simp add: f_def)
  then show ?thesis by (simp add: f_def)
qed

lemma gauss_int_upper:
  assumes "0 \<le> x"
  shows "gauss_int x \<le> x - x ^ 3 / 6 + x ^ 5 / 40"
proof -
  define f where "f = (\<lambda>x :: real. x - x ^ 3 / 6 + x ^ 5 / 40 - gauss_int x)"
  have "0 \<le> f x"
  proof (rule nondecreasing_from_0 [OF assms])
    fix t :: real
    have "DERIV f t :> 1 - 3 * t\<^sup>2 / 6 + 5 * t ^ 4 / 40 - exp (- t\<^sup>2 / 2)"
      unfolding f_def by (auto intro!: derivative_eq_intros DERIV_gauss_int)
    moreover have "exp (- (t\<^sup>2 / 2)) \<le> 1 - t\<^sup>2 / 2 + (t\<^sup>2 / 2)\<^sup>2 / 2"
      by (rule exp_minus_le_2) simp
    then have "0 \<le> 1 - 3 * t\<^sup>2 / 6 + 5 * t ^ 4 / 40 - exp (- t\<^sup>2 / 2)"
      by (simp add: power2_eq_square power4_eq_xxxx)
    ultimately show "\<exists>d. DERIV f t :> d \<and> 0 \<le> d" by blast
  qed (simp add: f_def gauss_int_0)
  then show ?thesis by (simp add: f_def)
qed

lemma gauss_int_lower:
  assumes "0 \<le> x"
  shows "x - x ^ 3 / 6 + x ^ 5 / 40 - x ^ 7 / 336 \<le> gauss_int x"
proof -
  define f where "f = (\<lambda>x :: real. gauss_int x - (x - x ^ 3 / 6 + x ^ 5 / 40 - x ^ 7 / 336))"
  have "0 \<le> f x"
  proof (rule nondecreasing_from_0 [OF assms])
    fix t :: real
    have "DERIV f t :> exp (- t\<^sup>2 / 2) - (1 - 3 * t\<^sup>2 / 6 + 5 * t ^ 4 / 40 - 7 * t ^ 6 / 336)"
      unfolding f_def by (auto intro!: derivative_eq_intros DERIV_gauss_int)
    moreover have "1 - t\<^sup>2 / 2 + (t\<^sup>2 / 2)\<^sup>2 / 2 - (t\<^sup>2 / 2) ^ 3 / 6 \<le> exp (- (t\<^sup>2 / 2))"
      by (rule exp_minus_ge_3) simp
    then have "0 \<le> exp (- t\<^sup>2 / 2) - (1 - 3 * t\<^sup>2 / 6 + 5 * t ^ 4 / 40 - 7 * t ^ 6 / 336)"
      by (simp add: power_divide power_mult [symmetric])
    ultimately show "\<exists>d. DERIV f t :> d \<and> 0 \<le> d" by blast
  qed (simp add: f_def gauss_int_0)
  then show ?thesis by (simp add: f_def)
qed

lemma arctan_upper_1:
  assumes "0 \<le> x"
  shows "arctan x \<le> x"
proof -
  define f where "f = (\<lambda>x :: real. x - arctan x)"
  have "0 \<le> f x"
  proof (rule nondecreasing_from_0 [OF assms])
    fix t :: real
    have q: "0 < 1 + t\<^sup>2" by (simp add: add_pos_nonneg)
    have "DERIV f t :> 1 - inverse (1 + t\<^sup>2)"
      unfolding f_def by (auto intro!: derivative_eq_intros DERIV_arctan)
    moreover have "1 - inverse (1 + t\<^sup>2) = t\<^sup>2 / (1 + t\<^sup>2)"
      using q by (simp add: field_simps)
    moreover have "0 \<le> t\<^sup>2 / (1 + t\<^sup>2)"
      using q by (intro divide_nonneg_pos) simp_all
    ultimately show "\<exists>d. DERIV f t :> d \<and> 0 \<le> d" by (intro exI conjI) auto
  qed (simp add: f_def)
  then show ?thesis by (simp add: f_def)
qed

lemma arctan_lower_3:
  assumes "0 \<le> x"
  shows "x - x ^ 3 / 3 \<le> arctan x"
proof -
  define f where "f = (\<lambda>x :: real. arctan x - (x - x ^ 3 / 3))"
  have "0 \<le> f x"
  proof (rule nondecreasing_from_0 [OF assms])
    fix t :: real
    have q: "0 < 1 + t\<^sup>2" by (simp add: add_pos_nonneg)
    have "DERIV f t :> inverse (1 + t\<^sup>2) - (1 - 3 * t\<^sup>2 / 3)"
      unfolding f_def by (auto intro!: derivative_eq_intros DERIV_arctan)
    moreover have "inverse (1 + t\<^sup>2) - (1 - 3 * t\<^sup>2 / 3) = t ^ 4 / (1 + t\<^sup>2)"
      using q by (simp add: field_simps power2_eq_square power4_eq_xxxx)
    moreover have "0 \<le> t ^ 4 / (1 + t\<^sup>2)"
      using q by (intro divide_nonneg_pos) simp_all
    ultimately show "\<exists>d. DERIV f t :> d \<and> 0 \<le> d" by (intro exI conjI) auto
  qed (simp add: f_def)
  then show ?thesis by (simp add: f_def)
qed

lemma arctan_upper_5:
  assumes "0 \<le> x"
  shows "arctan x \<le> x - x ^ 3 / 3 + x ^ 5 / 5"
proof -
  define f where "f = (\<lambda>x :: real. x - x ^ 3 / 3 + x ^ 5 / 5 - arctan x)"
  have "0 \<le> f x"
  proof (rule nondecreasing_from_0 [OF assms])
    fix t :: real
    have q: "0 < 1 + t\<^sup>2" by (simp add: add_pos_nonneg)
    have "DERIV f t :> 1 - 3 * t\<^sup>2 / 3 + 5 * t ^ 4 / 5 - inverse (1 + t\<^sup>2)"
      unfolding f_def by (auto intro!: derivative_eq_intros DERIV_arctan)
    moreover have "1 - 3 * t\<^sup>2 / 3 + 5 * t ^ 4 / 5 - inverse (1 + t\<^sup>2) = t ^ 6 / (1 + t\<^sup>2)"
      using q by (simp add: field_simps power2_eq_square power_numeral_reduce)
    moreover have "0 \<le> t ^ 6 / (1 + t\<^sup>2)"
      using q by (intro divide_nonneg_pos) simp_all
    ultimately show "\<exists>d. DERIV f t :> d \<and> 0 \<le> d" by (intro exI conjI) auto
  qed (simp add: f_def)
  then show ?thesis by (simp add: f_def)
qed

lemma arctan_lower_7:
  assumes "0 \<le> x"
  shows "x - x ^ 3 / 3 + x ^ 5 / 5 - x ^ 7 / 7 \<le> arctan x"
proof -
  define f where "f = (\<lambda>x :: real. arctan x - (x - x ^ 3 / 3 + x ^ 5 / 5 - x ^ 7 / 7))"
  have "0 \<le> f x"
  proof (rule nondecreasing_from_0 [OF assms])
    fix t :: real
    have q: "0 < 1 + t\<^sup>2" by (simp add: add_pos_nonneg)
    have "DERIV f t :> inverse (1 + t\<^sup>2) - (1 - 3 * t\<^sup>2 / 3 + 5 * t ^ 4 / 5 - 7 * t ^ 6 / 7)"
      unfolding f_def by (auto intro!: derivative_eq_intros DERIV_arctan)
    moreover have "inverse (1 + t\<^sup>2) - (1 - 3 * t\<^sup>2 / 3 + 5 * t ^ 4 / 5 - 7 * t ^ 6 / 7) = t ^ 8 / (1 + t\<^sup>2)"
      using q by (simp add: field_simps power2_eq_square power_numeral_reduce)
    moreover have "0 \<le> t ^ 8 / (1 + t\<^sup>2)"
      using q by (intro divide_nonneg_pos) simp_all
    ultimately show "\<exists>d. DERIV f t :> d \<and> 0 \<le> d" by (intro exI conjI) auto
  qed (simp add: f_def)
  then show ?thesis by (simp add: f_def)
qed

lemma machin_combine:
  fixes a b l u :: real
  assumes "l \<le> a" "b \<le> u"
  shows "16 * l - 4 * u \<le> 16 * a - 4 * b"
  using assms by linarith

lemma pi_bounds: "314159 / 100000 \<le> pi" "pi \<le> 314163 / 100000"
proof -
  have m: "pi = 16 * arctan (1 / 5) - 4 * arctan (1 / 239)"
    using machin by simp
  have a1: "arctan (1 / 5) \<le> 1 / 5 - (1 / 5) ^ 3 / 3 + (1 / 5) ^ 5 / 5"
    by (rule arctan_upper_5) simp
  have a2: "1 / 5 - (1 / 5) ^ 3 / 3 + (1 / 5) ^ 5 / 5 - (1 / 5) ^ 7 / 7 \<le> arctan (1 / 5)"
    by (rule arctan_lower_7) simp
  have b1: "arctan (1 / 239) \<le> 1 / 239"
    by (rule arctan_upper_1) simp
  have b2: "1 / 239 - (1 / 239) ^ 3 / 3 \<le> arctan (1 / 239)"
    by (rule arctan_lower_3) simp
  have "(314159 / 100000 :: real) \<le> 16 * (1 / 5 - (1 / 5) ^ 3 / 3 + (1 / 5) ^ 5 / 5 - (1 / 5) ^ 7 / 7) - 4 * (1 / 239)"
    by (simp add: power_divide)
  also have "\<dots> \<le> pi"
    unfolding m by (rule machin_combine [OF a2 b1])
  finally show "314159 / 100000 \<le> pi" .
  have "pi \<le> 16 * (1 / 5 - (1 / 5) ^ 3 / 3 + (1 / 5) ^ 5 / 5) - 4 * (1 / 239 - (1 / 239) ^ 3 / 3)"
    unfolding m by (rule machin_combine [OF a1 b2])
  also have "\<dots> \<le> (314163 / 100000 :: real)"
    by (simp add: power_divide)
  finally show "pi \<le> 314163 / 100000" .
qed

lemma sqrt_2pi_bounds: "250662 / 100000 \<le> sqrt (2 * pi)" "sqrt (2 * pi) \<le> 250665 / 100000"
proof -
  have "(250662 / 100000 :: real)\<^sup>2 \<le> 2 * (314159 / 100000)"
    by (simp add: power2_eq_square)
  also have "\<dots> \<le> 2 * pi"
    using pi_bounds(1) by simp
  finally show "250662 / 100000 \<le> sqrt (2 * pi)"
    by (rule real_le_rsqrt)
  have "2 * pi \<le> 2 * (314163 / 100000)"
    using pi_bounds(2) by simp
  also have "\<dots> \<le> (250665 / 100000 :: real)\<^sup>2"
    by (simp add: power2_eq_square)
  finally show "sqrt (2 * pi) \<le> 250665 / 100000"
    by (intro real_le_lsqrt) simp_all
qed

subsection \<open>The reference example: d1 = 0.35, d2 = 0.15\<close>

lemma norm_cdf_lower:
  assumes "0 \<le> x"
  shows "1 / 2 + (x - x ^ 3 / 6 + x ^ 5 / 40 - x ^ 7 / 336) / (250665 / 100000) \<le> norm_cdf x"
proof -
  have "0 < sqrt (2 * pi)" by simp
  then have "(x - x ^ 3 / 6 + x ^ 5 / 40 - x ^ 7 / 336) / (250665 / 100000) \<le> gauss_int x / sqrt (2 * pi)"
    by (rule frac_le [OF gauss_int_nonneg [OF assms(1)] gauss_int_lower [OF assms(1)] _ sqrt_2pi_bounds(2)])
  then show ?thesis by (simp add: norm_cdf_def)
qed

lemma norm_cdf_upper:
  assumes "0 \<le> x"
  shows "norm_cdf x \<le> 1 / 2 + (x - x ^ 3 / 6 + x ^ 5 / 40) / (250662 / 100000)"
proof -
  have "0 \<le> x - x ^ 3 / 6 + x ^ 5 / 40"
    using gauss_int_nonneg [OF assms] gauss_int_upper [OF assms] by linarith
  then have "gauss_int x / sqrt (2 * pi) \<le> (x - x ^ 3 / 6 + x ^ 5 / 40) / (250662 / 100000)"
    by (rule frac_le [OF _ gauss_int_upper [OF assms] _ sqrt_2pi_bounds(1)]) simp
  then show ?thesis by (simp add: norm_cdf_def)
qed

lemma norm_cdf_at_d1: "63682 / 100000 \<le> norm_cdf (7 / 20)" "norm_cdf (7 / 20) \<le> 63684 / 100000"
proof -
  have "(63682 / 100000 :: real) \<le> 1 / 2 + (7 / 20 - (7 / 20) ^ 3 / 6 + (7 / 20) ^ 5 / 40 - (7 / 20) ^ 7 / 336) / (250665 / 100000)"
    by (simp add: power_divide)
  also have "\<dots> \<le> norm_cdf (7 / 20)"
    by (rule norm_cdf_lower) simp
  finally show "63682 / 100000 \<le> norm_cdf (7 / 20)" .
  have "norm_cdf (7 / 20) \<le> 1 / 2 + (7 / 20 - (7 / 20) ^ 3 / 6 + (7 / 20) ^ 5 / 40) / (250662 / 100000)"
    by (rule norm_cdf_upper) simp
  also have "\<dots> \<le> (63684 / 100000 :: real)"
    by (simp add: power_divide)
  finally show "norm_cdf (7 / 20) \<le> 63684 / 100000" .
qed

lemma norm_cdf_at_d2: "55961 / 100000 \<le> norm_cdf (3 / 20)" "norm_cdf (3 / 20) \<le> 55963 / 100000"
proof -
  have "(55961 / 100000 :: real) \<le> 1 / 2 + (3 / 20 - (3 / 20) ^ 3 / 6 + (3 / 20) ^ 5 / 40 - (3 / 20) ^ 7 / 336) / (250665 / 100000)"
    by (simp add: power_divide)
  also have "\<dots> \<le> norm_cdf (3 / 20)"
    by (rule norm_cdf_lower) simp
  finally show "55961 / 100000 \<le> norm_cdf (3 / 20)" .
  have "norm_cdf (3 / 20) \<le> 1 / 2 + (3 / 20 - (3 / 20) ^ 3 / 6 + (3 / 20) ^ 5 / 40) / (250662 / 100000)"
    by (rule norm_cdf_upper) simp
  also have "\<dots> \<le> (55963 / 100000 :: real)"
    by (simp add: power_divide)
  finally show "norm_cdf (3 / 20) \<le> 55963 / 100000" .
qed

lemma discount_bounds: "95122 / 100000 \<le> exp (- (5 / 100) :: real)" "exp (- (5 / 100) :: real) \<le> 95123 / 100000"
proof -
  have "(95122 / 100000 :: real) \<le> 1 - 5 / 100 + (5 / 100)\<^sup>2 / 2 - (5 / 100) ^ 3 / 6"
    by (simp add: power_divide)
  also have "\<dots> \<le> exp (- (5 / 100))"
    by (rule exp_minus_ge_3) simp
  finally show "95122 / 100000 \<le> exp (- (5 / 100) :: real)" .
  have "exp (- (5 / 100) :: real) \<le> 1 - 5 / 100 + (5 / 100)\<^sup>2 / 2 - (5 / 100) ^ 3 / 6 + (5 / 100) ^ 4 / 24"
    by (rule exp_minus_le_4) simp
  also have "\<dots> \<le> (95123 / 100000 :: real)"
    by (simp add: power_divide)
  finally show "exp (- (5 / 100) :: real) \<le> 95123 / 100000" .
qed

lemma reference_d1_d2:
  "spec_d1 100 100 1 (5 / 100) (2 / 10) = 7 / 20"
  "spec_d2 100 100 1 (5 / 100) (2 / 10) = 3 / 20"
  by (simp_all add: spec_d2_def spec_d1_def power_divide)

lemma interval_product:
  fixes e c el eu cl cu :: real
  assumes "el \<le> e" "e \<le> eu" "cl \<le> c" "c \<le> cu" "0 \<le> el" "0 \<le> cl"
  shows "el * cl \<le> e * c" "e * c \<le> eu * cu"
proof -
  show "el * cl \<le> e * c"
    using assms by (intro mult_mono) simp_all
  show "e * c \<le> eu * cu"
    using assms by (intro mult_mono) simp_all
qed

lemma approx_lower:
  fixes c n l l' eps :: real
  assumes "\<bar>c - n\<bar> \<le> eps" "l \<le> n" "l' \<le> l - eps"
  shows "l' \<le> c"
  using assms by linarith

lemma approx_upper:
  fixes c n u u' eps :: real
  assumes "\<bar>c - n\<bar> \<le> eps" "n \<le> u" "u + eps \<le> u'"
  shows "c \<le> u'"
  using assms by linarith

lemma approx_lower_minus:
  fixes c n u l' eps :: real
  assumes "\<bar>c - (1 - n)\<bar> \<le> eps" "n \<le> u" "l' \<le> 1 - u - eps"
  shows "l' \<le> c"
  using assms by linarith

lemma approx_upper_minus:
  fixes c n l u' eps :: real
  assumes "\<bar>c - (1 - n)\<bar> \<le> eps" "l \<le> n" "1 - l + eps \<le> u'"
  shows "c \<le> u'"
  using assms by linarith

lemma difference_within:
  fixes a b al au bl bu t tol :: real
  assumes "al \<le> a" "a \<le> au" "bl \<le> b" "b \<le> bu"
    and "t - tol \<le> 100 * al - 100 * bu" "100 * au - 100 * bl \<le> t + tol"
  shows "\<bar>100 * a - 100 * b - t\<bar> \<le> tol"
  using assms by linarith

lemma reference_prices:
  fixes cdf :: "real \<Rightarrow> real"
  assumes "\<And>x. \<bar>cdf x - norm_cdf x\<bar> \<le> 1 / 10 ^ 8"
  shows "\<bar>spec_call cdf 100 100 1 (5 / 100) (2 / 10) - 1045 / 100\<bar> \<le> 1 / 100"
    and "\<bar>spec_put cdf 100 100 1 (5 / 100) (2 / 10) - 557 / 100\<bar> \<le> 1 / 100"
proof -
  define e :: real where "e = exp (- (5 / 100))"
  have e: "95122 / 100000 \<le> e" "e \<le> 95123 / 100000"
    using discount_bounds by (simp_all add: e_def)
  have c1: "63681 / 100000 \<le> cdf (7 / 20)" "cdf (7 / 20) \<le> 63685 / 100000"
    by (rule approx_lower [OF assms norm_cdf_at_d1(1)], simp)
       (rule approx_upper [OF assms norm_cdf_at_d1(2)], simp)
  have c2: "55960 / 100000 \<le> cdf (3 / 20)" "cdf (3 / 20) \<le> 55964 / 100000"
    by (rule approx_lower [OF assms norm_cdf_at_d2(1)], simp)
       (rule approx_upper [OF assms norm_cdf_at_d2(2)], simp)
  have m1: "\<bar>cdf (- (7 / 20)) - (1 - norm_cdf (7 / 20))\<bar> \<le> 1 / 10 ^ 8"
    using assms [of "- (7 / 20)"] by (simp only: norm_cdf_minus)
  have m2: "\<bar>cdf (- (3 / 20)) - (1 - norm_cdf (3 / 20))\<bar> \<le> 1 / 10 ^ 8"
    using assms [of "- (3 / 20)"] by (simp only: norm_cdf_minus)
  have n1: "36315 / 100000 \<le> cdf (- (7 / 20))" "cdf (- (7 / 20)) \<le> 36319 / 100000"
    by (rule approx_lower_minus [OF m1 norm_cdf_at_d1(2)], simp)
       (rule approx_upper_minus [OF m1 norm_cdf_at_d1(1)], simp)
  have n2: "44036 / 100000 \<le> cdf (- (3 / 20))" "cdf (- (3 / 20)) \<le> 44040 / 100000"
    by (rule approx_lower_minus [OF m2 norm_cdf_at_d2(2)], simp)
       (rule approx_upper_minus [OF m2 norm_cdf_at_d2(1)], simp)
  have p: "95122 / 100000 * (55960 / 100000) \<le> e * cdf (3 / 20)"
          "e * cdf (3 / 20) \<le> 95123 / 100000 * (55964 / 100000)"
    by (rule interval_product [OF e c2]; simp)+
  have q: "95122 / 100000 * (44036 / 100000) \<le> e * cdf (- (3 / 20))"
          "e * cdf (- (3 / 20)) \<le> 95123 / 100000 * (44040 / 100000)"
    by (rule interval_product [OF e n2]; simp)+
  have "spec_call cdf 100 100 1 (5 / 100) (2 / 10) = 100 * cdf (7 / 20) - 100 * (e * cdf (3 / 20))"
    unfolding spec_call_def reference_d1_d2 e_def by simp
  moreover have "\<bar>100 * cdf (7 / 20) - 100 * (e * cdf (3 / 20)) - 1045 / 100\<bar> \<le> 1 / 100"
    by (rule difference_within [OF c1 p]; simp)
  ultimately show "\<bar>spec_call cdf 100 100 1 (5 / 100) (2 / 10) - 1045 / 100\<bar> \<le> 1 / 100"
    by (simp only:)
  have "spec_put cdf 100 100 1 (5 / 100) (2 / 10) = 100 * (e * cdf (- (3 / 20))) - 100 * cdf (- (7 / 20))"
    unfolding spec_put_def reference_d1_d2 e_def by simp
  moreover have "\<bar>100 * (e * cdf (- (3 / 20))) - 100 * cdf (- (7 / 20)) - 557 / 100\<bar> \<le> 1 / 100"
    by (rule difference_within [OF q n1]; simp)
  ultimately show "\<bar>spec_put cdf 100 100 1 (5 / 100) (2 / 10) - 557 / 100\<bar> \<le> 1 / 100"
    by (simp only:)
qed

section \<open>Properties\<close>

subsection \<open>Evaluating the model\<close>

lemma compute_d1_valid:
  assumes "0 < q" "0 < T" "0 < sigma"
  shows "compute_d1 q T r sigma = Fin ((ln q + (r + sigma\<^sup>2 / 2) * T) / (sigma * sqrt T))"
  using assms by (simp add: compute_d1_def np_log_def np_sqrt_def np_add_def np_mul_def)

lemma compute_d2_valid:
  assumes "0 < T"
  shows "compute_d2 (Fin d) T sigma = Fin (d - sigma * sqrt T)"
  using assms by (simp add: compute_d2_def np_sqrt_def np_sub_def np_mul_def)

lemma black_scholes_with_call:
  assumes "0 < S" "0 < K" "0 < T" "0 < sigma"
  shows "black_scholes_with cdf S K T r sigma ''call'' = Inr (Fin (spec_call cdf S K T r sigma))"
  using assms
  by (simp add: black_scholes_with_def py_div_def compute_d1_valid compute_d2_valid
      np_sub_def np_mul_def np_exp_def spec_call_def spec_d1_def spec_d2_def)

lemma black_scholes_with_put:
  assumes "0 < S" "0 < K" "0 < T" "0 < sigma"
  shows "black_scholes_with cdf S K T r sigma ''put'' = Inr (Fin (spec_put cdf S K T r sigma))"
  using assms
  by (simp add: black_scholes_with_def py_div_def compute_d1_valid compute_d2_valid
      np_sub_def np_mul_def np_neg_def np_exp_def spec_put_def spec_d1_def spec_d2_def)

lemma black_scholes_example_eq:
  "black_scholes_example S K T r sigma option_type out =
     (map_sum id Float (black_scholes 100 100 1 (5 / 100) (2 / 10) option_type), out)"
  by (subst black_scholes_example.simps)
     (simp add: price_statements_def Let_def split: sum.splits del: black_scholes_example.simps)

subsection \<open>Runs inside the floating-point range\<close>

lemma and_then_ret [simp]: "and_then (ret x) f = f x"
  by (simp add: and_then_def ret_def)

lemma and_then_throw [simp]: "and_then (throw e) f = throw e"
  by (simp add: and_then_def throw_def)

lemma max_float_bounds: "2 ^ 1023 \<le> max_float" "max_float + 2 ^ 970 < 2 ^ 1024"
proof -
  have "(1 :: real) \<le> 2 - 1 / 2 ^ 52"
    by simp
  then have "1 * 2 ^ 1023 \<le> (2 - 1 / 2 ^ 52) * (2 ^ 1023 :: real)"
    by (rule mult_right_mono) simp
  then show "2 ^ 1023 \<le> max_float"
    by (simp add: max_float_def)
  have "max_float = 2 ^ 1024 - 2 ^ 971"
    by (simp add: max_float_def algebra_simps)
  moreover have "(2 :: real) ^ 970 < 2 ^ 971"
    by (rule power_strict_increasing) simp_all
  ultimately show "max_float + 2 ^ 970 < 2 ^ 1024"
    by simp
qed

lemma fits_small: "\<bar>x\<bar> \<le> 2 ^ 400 \<Longrightarrow> fits x"
proof -
  assume "\<bar>x\<bar> \<le> 2 ^ 400"
  also have "(2 :: real) ^ 400 \<le> 2 ^ 1023"
    by (rule power_increasing) simp_all
  also have "\<dots> \<le> max_float"
    by (rule max_float_bounds(1))
  also have "\<dots> < max_float + 2 ^ 970"
    by simp
  finally show "fits x"
    by (simp add: fits_def)
qed


lemma fits_half: "fits x \<Longrightarrow> fits (x / 2)"
  by (simp add: fits_def)

lemma fl_binary_finite:
  assumes "op (Finite x) (Finite y) = (Finite z, None)"
  shows "fl_binary h op (k1, Finite x) (k2, Finite y) = ret (join_kind k1 k2, Finite z)"
  using assms by (simp add: fl_binary_def deliver_def join_kind_def)

lemma fl_add_fits:
  "fits (x + y) \<Longrightarrow> fl_add h (k1, Finite x) (k2, Finite y) = ret (join_kind k1 k2, Finite (x + y))"
  unfolding fl_add_def by (rule fl_binary_finite) (simp add: ieee_result_def)

lemma fl_sub_fits:
  "fits (x - y) \<Longrightarrow> fl_sub h (k1, Finite x) (k2, Finite y) = ret (join_kind k1 k2, Finite (x - y))"
  unfolding fl_sub_def by (rule fl_binary_finite) (simp add: ieee_sub_def ieee_result_def)

lemma fl_mul_fits:
  "fits (x * y) \<Longrightarrow> fl_mul h (k1, Finite x) (k2, Finite y) = ret (join_kind k1 k2, Finite (x * y))"
  unfolding fl_mul_def by (rule fl_binary_finite) (simp add: ieee_result_def)

lemma fl_div_fits:
  assumes "y \<noteq> 0" "fits (x / y)"
  shows "fl_div h (k1, Finite x) (k2, Finite y) = ret (join_kind k1 k2, Finite (x / y))"
proof -
  have "fl_binary h ieee_div (k1, Finite x) (k2, Finite y) = ret (join_kind k1 k2, Finite (x / y))"
    by (rule fl_binary_finite) (use assms in \<open>simp add: ieee_result_def\<close>)
  then show ?thesis
    using assms by (simp add: fl_div_def)
qed

lemma fl_square_fits: "fits (x\<^sup>2) \<Longrightarrow> fl_square h (k, Finite x) = ret (k, Finite (x\<^sup>2))"
  by (cases k) (simp_all add: fl_square_def deliver_def ieee_result_def)

lemma fl_log_pos: "0 < x \<Longrightarrow> fl_log h (k, Finite x) = ret (Numpy, Finite (ln x))"
  by (simp add: fl_log_def deliver_def)

lemma fl_sqrt_nonneg: "0 \<le> x \<Longrightarrow> fl_sqrt h (k, Finite x) = ret (Numpy, Finite (sqrt x))"
  by (simp add: fl_sqrt_def deliver_def)

lemma fl_exp_fits: "fits (exp x) \<Longrightarrow> fl_exp h (k, Finite x) = ret (Numpy, Finite (exp x))"
  by (simp add: fl_exp_def deliver_def ieee_result_def)

lemma d1_run_in_range:
  assumes "0 < value_of S" "0 < value_of K" "0 < value_of T" "0 < value_of sigma"
    and "d_in_range (value_of S) (value_of K) (value_of T) (value_of r) (value_of sigma)"
  shows "d1_run h S K T r sigma
         = ret (Numpy, Finite (spec_d1 (value_of S) (value_of K) (value_of T) (value_of r) (value_of sigma)))"
proof -
  have q: "0 < value_of S / value_of K" using assms by simp
  have den: "value_of sigma * sqrt (value_of T) \<noteq> 0" using assms by simp
  have half: "fits ((value_of sigma)\<^sup>2 / 2)"
    using assms(5) by (simp add: d_in_range_def fits_half)
  have d1: "fits ((ln (value_of S / value_of K) + (value_of r + (value_of sigma)\<^sup>2 / 2) * value_of T)
                   / (value_of sigma * sqrt (value_of T)))"
    using assms(5) by (simp add: d_in_range_def spec_d1_def)
  show ?thesis
    using assms q den half d1
    by (simp add: d1_run_def as_value_def d_in_range_def fl_div_fits fl_log_pos fl_square_fits
        fl_add_fits fl_mul_fits fl_sqrt_nonneg join_kind_def spec_d1_def)
qed

lemma d2_run_in_range:
  assumes "0 < value_of T" "fits (value_of sigma * sqrt (value_of T))"
    and "fits (d - value_of sigma * sqrt (value_of T))"
  shows "d2_run h (Numpy, Finite d) T sigma = ret (Numpy, Finite (d - value_of sigma * sqrt (value_of T)))"
  using assms
  by (simp add: d2_run_def as_value_def fl_sqrt_nonneg fl_mul_fits fl_sub_fits join_kind_def)

lemma d2_run_after_d1:
  assumes "0 < value_of T"
    and "d_in_range (value_of S) (value_of K) (value_of T) (value_of r) (value_of sigma)"
  shows "d2_run h (Numpy, Finite (spec_d1 (value_of S) (value_of K) (value_of T) (value_of r) (value_of sigma))) T sigma
         = ret (Numpy, Finite (spec_d2 (value_of S) (value_of K) (value_of T) (value_of r) (value_of sigma)))"
  unfolding spec_d2_def
  by (rule d2_run_in_range) (use assms in \<open>simp_all add: d_in_range_def spec_d2_def\<close>)

lemma discounted_strike_run_in_range:
  assumes "fits (- value_of r * value_of T)" "fits (exp (- value_of r * value_of T))"
    and "fits (value_of K * exp (- value_of r * value_of T))"
  shows "discounted_strike_run h K T r = ret (Numpy, Finite (value_of K * exp (- value_of r * value_of T)))"
  using assms
  by (simp add: discounted_strike_run_def as_value_def fl_neg_def fl_mul_fits fl_exp_fits join_kind_def)

lemma call_run_in_range:
  assumes "fits (- value_of r * value_of T)" "fits (exp (- value_of r * value_of T))"
    and "fits (value_of K * exp (- value_of r * value_of T))"
    and "fits (value_of S * cdf d1)"
    and "fits (value_of K * exp (- value_of r * value_of T) * cdf d2)"
    and "fits (value_of S * cdf d1 - value_of K * exp (- value_of r * value_of T) * cdf d2)"
  shows "call_run h cdf S K T r (Numpy, Finite d1) (Numpy, Finite d2)
         = ret (Numpy, Finite (value_of S * cdf d1 - value_of K * exp (- value_of r * value_of T) * cdf d2))"
  using assms
  by (simp add: call_run_def discounted_strike_run_in_range as_value_def fl_cdf_def fl_mul_fits
      fl_sub_fits join_kind_def)

lemma put_run_in_range:
  assumes "fits (- value_of r * value_of T)" "fits (exp (- value_of r * value_of T))"
    and "fits (value_of K * exp (- value_of r * value_of T))"
    and "fits (value_of K * exp (- value_of r * value_of T) * cdf (- d2))"
    and "fits (value_of S * cdf (- d1))"
    and "fits (value_of K * exp (- value_of r * value_of T) * cdf (- d2) - value_of S * cdf (- d1))"
  shows "put_run h cdf S K T r (Numpy, Finite d1) (Numpy, Finite d2)
         = ret (Numpy, Finite (value_of K * exp (- value_of r * value_of T) * cdf (- d2) - value_of S * cdf (- d1)))"
  using assms
  by (simp add: put_run_def discounted_strike_run_in_range as_value_def fl_cdf_def fl_neg_def
      fl_mul_fits fl_sub_fits join_kind_def)

lemma black_scholes_run_call:
  assumes "0 < value_of S" "0 < value_of K" "0 < value_of T" "0 < value_of sigma"
    and "d_in_range (value_of S) (value_of K) (value_of T) (value_of r) (value_of sigma)"
    and "call_in_range cdf (value_of S) (value_of K) (value_of T) (value_of r) (value_of sigma)"
  shows "black_scholes_run h cdf S K T r sigma ''call'' st
         = (Inr (Finite (spec_call cdf (value_of S) (value_of K) (value_of T) (value_of r) (value_of sigma))), st)"
proof -
  note d1 = d1_run_in_range [OF assms(1-5), of h]
  note d2 = d2_run_after_d1 [OF assms(3,5), of h]
  have c: "call_run h cdf S K T r
             (Numpy, Finite (spec_d1 (value_of S) (value_of K) (value_of T) (value_of r) (value_of sigma)))
             (Numpy, Finite (spec_d2 (value_of S) (value_of K) (value_of T) (value_of r) (value_of sigma)))
           = ret (Numpy, Finite (spec_call cdf (value_of S) (value_of K) (value_of T) (value_of r) (value_of sigma)))"
    unfolding spec_call_def
    by (rule call_run_in_range) (use assms(6) in \<open>simp_all add: call_in_range_def spec_call_def\<close>)
  show ?thesis
    by (simp add: black_scholes_run_def d1 d2 c) (simp add: ret_def)
qed

lemma black_scholes_run_put:
  assumes "0 < value_of S" "0 < value_of K" "0 < value_of T" "0 < value_of sigma"
    and "d_in_range (value_of S) (value_of K) (value_of T) (value_of r) (value_of sigma)"
    and "put_in_range cdf (value_of S) (value_of K) (value_of T) (value_of r) (value_of sigma)"
  shows "black_scholes_run h cdf S K T r sigma ''put'' st
         = (Inr (Finite (spec_put cdf (value_of S) (value_of K) (value_of T) (value_of r) (value_of sigma))), st)"
proof -
  note d1 = d1_run_in_range [OF assms(1-5), of h]
  note d2 = d2_run_after_d1 [OF assms(3,5), of h]
  have c: "put_run h cdf S K T r
             (Numpy, Finite (spec_d1 (value_of S) (value_of K) (value_of T) (value_of r) (value_of sigma)))
             (Numpy, Finite (spec_d2 (value_of S) (value_of K) (value_of T) (value_of r) (value_of sigma)))
           = ret (Numpy, Finite (spec_put cdf (value_of S) (value_of K) (value_of T) (value_of r) (value_of sigma)))"
    unfolding spec_put_def
    by (rule put_run_in_range) (use assms(6) in \<open>simp_all add: put_in_range_def spec_put_def\<close>)
  show ?thesis
    by (simp add: black_scholes_run_def d1 d2 c) (simp add: ret_def)
qed





text \<open>Inside the range the run returns what the exact reading returns.\<close>

lemma run_agrees_with_exact:
  assumes "0 < value_of S" "0 < value_of K" "0 < value_of T" "0 < value_of sigma"
    and "no_overflow cdf (value_of S) (value_of K) (value_of T) (value_of r) (value_of sigma)"
    and "option_type = ''call'' \<or> option_type = ''put''"
  shows "\<exists>p. black_scholes_with cdf (value_of S) (value_of K) (value_of T) (value_of r)
                (value_of sigma) option_type = Inr (Fin p)
           \<and> black_scholes_run h cdf S K T r sigma option_type st = (Inr (Finite p), st)"
  using assms(6)
proof
  assume "option_type = ''call''"
  then show ?thesis
    using black_scholes_with_call [OF assms(1-4), of cdf "value_of r"]
      black_scholes_run_call [OF assms(1-4), of r cdf h st] assms(5)
    by (simp add: no_overflow_def)
next
  assume "option_type = ''put''"
  then show ?thesis
    using black_scholes_with_put [OF assms(1-4), of cdf "value_of r"]
      black_scholes_run_put [OF assms(1-4), of r cdf h st] assms(5)
    by (simp add: no_overflow_def)
qed

subsection \<open>Which inputs stay inside the range\<close>


lemma fits_bounded: "\<bar>x\<bar> \<le> b \<Longrightarrow> b \<le> 2 ^ 400 \<Longrightarrow> fits x"
  by (rule fits_small) (rule order_trans)

lemma abs_product_le:
  fixes a b :: real
  assumes "\<bar>a\<bar> \<le> A" "\<bar>b\<bar> \<le> B"
  shows "\<bar>a * b\<bar> \<le> A * B"
proof -
  have "0 \<le> A" using assms(1) by linarith
  have "\<bar>a * b\<bar> = \<bar>a\<bar> * \<bar>b\<bar>" by (rule abs_mult)
  also have "\<dots> \<le> A * B"
    by (rule mult_mono [OF assms \<open>0 \<le> A\<close>]) simp
  finally show ?thesis .
qed

lemma exp_100_le: "exp (100 :: real) \<le> 2 ^ 200"
proof -
  have "exp (1 :: real) \<le> 1 + 1 + 1\<^sup>2"
    by (rule exp_bound) simp_all
  then have "exp (1 :: real) ^ 100 \<le> 4 ^ 100"
    by (intro power_mono) simp_all
  moreover have "exp (1 :: real) ^ 100 = exp (real 100 * 1)"
    by (rule exp_of_nat_mult [symmetric])
  moreover have "(4 :: real) ^ 100 = 2 ^ 200"
    using power_mult [of "2 :: real" 2 100] by simp
  ultimately show ?thesis by simp
qed

lemma ln_quotient_bound:
  fixes q :: real
  assumes "1 / c \<le> q" "q \<le> c" "0 < c"
  shows "\<bar>ln q\<bar> \<le> c"
proof -
  have q: "0 < q"
    using assms by (meson less_le_trans divide_pos_pos zero_less_one)
  have up: "ln q \<le> q - 1"
    by (rule ln_le_minus_one [OF q])
  have inv: "inverse q \<le> c"
  proof -
    have "inverse q \<le> inverse (1 / c)"
      by (rule le_imp_inverse_le [OF assms(1)]) (use assms(3) in simp)
    then show ?thesis by simp
  qed
  have "ln (inverse q) \<le> inverse q - 1"
    by (rule ln_le_minus_one) (use q in simp)
  then have low: "- ln q \<le> inverse q - 1"
    using q by (simp add: ln_inverse)
  show ?thesis
    using up low inv assms(2) by linarith
qed

text \<open>A sufficient condition: moderate inputs, as those of the notebook, stay in range.\<close>

lemma no_overflow_moderate:
  assumes S: "1 / 1000 \<le> S" "S \<le> 1000" and K: "1 / 1000 \<le> K" "K \<le> 1000"
    and T: "1 / 1000 \<le> T" "T \<le> 100" and r: "\<bar>r\<bar> \<le> 1"
    and v: "1 / 1000 \<le> sigma" "sigma \<le> 10"
    and cdf: "\<And>x. \<bar>cdf x\<bar> \<le> 2"
  shows "no_overflow cdf S K T r sigma"
proof -
  define q where "q = S / K"
  define A where "A = (r + sigma\<^sup>2 / 2) * T"
  define D where "D = sigma * sqrt T"
  define E where "E = exp (- r * T)"
  have pos: "0 < S" "0 < K" "0 < T" "0 < sigma"
    using S K T v by simp_all
  have "S / K \<le> 1000 / (1 / 1000)"
    by (rule frac_le) (use S K pos in simp_all)
  then have q_up: "q \<le> 1000000"
    by (simp add: q_def)
  have "(1 / 1000) / 1000 \<le> S / K"
    by (rule frac_le) (use S K pos in simp_all)
  then have q_low: "1 / 1000000 \<le> q"
    by (simp add: q_def)
  have q_abs: "\<bar>q\<bar> \<le> 1000000"
    using q_up q_low by simp
  have ln_q: "\<bar>ln q\<bar> \<le> 1000000"
    by (rule ln_quotient_bound) (use q_up q_low in simp_all)
  have v2: "\<bar>sigma\<^sup>2\<bar> \<le> 100"
  proof -
    have "sigma\<^sup>2 \<le> 10\<^sup>2"
      by (rule power_mono) (use v pos in simp_all)
    then show ?thesis by simp
  qed
  have drift: "\<bar>r + sigma\<^sup>2 / 2\<bar> \<le> 51"
    using r v2 by linarith
  have A_abs: "\<bar>A\<bar> \<le> 51 * 100"
    unfolding A_def by (rule abs_product_le [OF drift]) (use T pos in simp)
  have N_abs: "\<bar>ln q + A\<bar> \<le> 1005100"
    using ln_q A_abs by linarith
  have root_up: "sqrt T \<le> 10"
    using real_sqrt_le_mono [OF T(2)] by simp
  have root_low: "1 / 1000 \<le> sqrt T"
  proof (rule real_le_rsqrt)
    show "(1 / 1000)\<^sup>2 \<le> T"
      using T(1) by (simp add: power_divide)
  qed
  have D_up: "D \<le> 10 * 10"
    unfolding D_def by (rule mult_mono [OF v(2) root_up]) (use pos in simp_all)
  have D_low: "1 / 1000 * (1 / 1000) \<le> D"
    unfolding D_def by (rule mult_mono [OF v(1) root_low]) (use pos in simp_all)
  have D_pos: "0 < D"
    using D_low by simp
  have D_abs: "\<bar>D\<bar> \<le> 100"
    using D_up D_pos by simp
  have d1_abs: "\<bar>(ln q + A) / D\<bar> \<le> 1005100 * 1000000"
  proof -
    have "\<bar>(ln q + A) / D\<bar> = \<bar>ln q + A\<bar> * inverse D"
      using D_pos by (simp add: divide_inverse abs_mult)
    also have "\<dots> \<le> 1005100 * 1000000"
    proof (rule mult_mono [OF N_abs])
      have "inverse D \<le> inverse (1 / 1000 * (1 / 1000))"
        by (rule le_imp_inverse_le [OF D_low]) simp
      then show "inverse D \<le> 1000000" by simp
    qed (use D_pos in simp_all)
    finally show ?thesis .
  qed
  have d1: "spec_d1 S K T r sigma = (ln q + A) / D"
    by (simp add: spec_d1_def q_def A_def D_def)
  have d2: "spec_d2 S K T r sigma = (ln q + A) / D - D"
    by (simp add: spec_d2_def d1 D_def)
  have d2_abs: "\<bar>(ln q + A) / D - D\<bar> \<le> 1005100 * 1000000 + 100"
    using d1_abs D_abs by linarith
  have rT: "\<bar>- r * T\<bar> \<le> 1 * 100"
    by (rule abs_product_le) (use r T pos in simp_all)
  have E_pos: "0 < E"
    by (simp add: E_def)
  have E_up: "E \<le> 2 ^ 200"
  proof -
    have "- r * T \<le> 100" using rT by linarith
    then have "E \<le> exp 100" by (simp add: E_def)
    then show ?thesis using exp_100_le by linarith
  qed
  have E_abs: "\<bar>E\<bar> \<le> 2 ^ 200"
    using E_pos E_up by simp
  have KE_abs: "\<bar>K * E\<bar> \<le> 1000 * 2 ^ 200"
    by (rule abs_product_le [OF _ E_abs]) (use K pos in simp)
  have S_abs: "\<bar>S\<bar> \<le> 1000"
    using S pos by simp
  have S_cdf: "\<bar>S * cdf x\<bar> \<le> 1000 * 2" for x
    by (rule abs_product_le [OF S_abs cdf])
  have KE_cdf: "\<bar>K * E * cdf x\<bar> \<le> 1000 * 2 ^ 200 * 2" for x
    by (rule abs_product_le [OF KE_abs cdf])
  have small: "(1000 * 2 ^ 200 * 2 + 1000 * 2 :: real) \<le> 2 ^ 400"
    by simp
  have call: "\<bar>S * cdf x - K * E * cdf y\<bar> \<le> 2 ^ 400" for x y
    using S_cdf [of x] KE_cdf [of y] small by linarith
  have put: "\<bar>K * E * cdf x - S * cdf y\<bar> \<le> 2 ^ 400" for x y
    using S_cdf [of y] KE_cdf [of x] small by linarith
  have "d_in_range S K T r sigma"
    unfolding d_in_range_def d1 d2
    unfolding q_def [symmetric] A_def [symmetric] D_def [symmetric]
  proof (intro conjI)
    show "fits q" by (rule fits_bounded [OF q_abs]) simp
    show "fits (sigma\<^sup>2)" by (rule fits_bounded [OF v2]) simp
    show "fits (r + sigma\<^sup>2 / 2)" by (rule fits_bounded [OF drift]) simp
    show "fits A" by (rule fits_bounded [OF A_abs]) simp
    show "fits (ln q + A)" by (rule fits_bounded [OF N_abs]) simp
    show "fits D" by (rule fits_bounded [OF D_abs]) simp
    show "fits ((ln q + A) / D)" by (rule fits_bounded [OF d1_abs]) simp
    show "fits ((ln q + A) / D - D)" by (rule fits_bounded [OF d2_abs]) simp
  qed
  moreover have "call_in_range cdf S K T r sigma"
    unfolding call_in_range_def spec_call_def
    unfolding E_def [symmetric]
  proof (intro conjI)
    show "fits (- r * T)" by (rule fits_bounded [OF rT]) simp
    show "fits E" by (rule fits_bounded [OF E_abs]) simp
    show "fits (K * E)" by (rule fits_bounded [OF KE_abs]) simp
    show "fits (S * cdf (spec_d1 S K T r sigma))" by (rule fits_bounded [OF S_cdf]) simp
    show "fits (K * E * cdf (spec_d2 S K T r sigma))"
      by (rule fits_bounded [OF KE_cdf]) simp
    show "fits (S * cdf (spec_d1 S K T r sigma) - K * E * cdf (spec_d2 S K T r sigma))"
      by (rule fits_small) (rule call)
  qed
  moreover have "put_in_range cdf S K T r sigma"
    unfolding put_in_range_def spec_put_def
    unfolding E_def [symmetric]
  proof (intro conjI)
    show "fits (- r * T)" by (rule fits_bounded [OF rT]) simp
    show "fits E" by (rule fits_bounded [OF E_abs]) simp
    show "fits (K * E)" by (rule fits_bounded [OF KE_abs]) simp
    show "fits (S * cdf (- spec_d1 S K T r sigma))" by (rule fits_bounded [OF S_cdf]) simp
    show "fits (K * E * cdf (- spec_d2 S K T r sigma))"
      by (rule fits_bounded [OF KE_cdf]) simp
    show "fits (K * E * cdf (- spec_d2 S K T r sigma) - S * cdf (- spec_d1 S K T r sigma))"
      by (rule fits_small) (rule put)
  qed
  ultimately show ?thesis
    by (simp add: no_overflow_def)
qed



subsection \<open>Runs that leave the range\<close>



























subsection \<open>A distribution function that is only accurate to a tolerance\<close>




subsection \<open>The sweep inside the range\<close>



subsection \<open>The example inputs with an extreme volatility or rate\<close>














lemma example_forward: "100 - 100 * exp (- (5 / 100) * 1) \<le> (5 :: real)"
proof -
  have "1 + - (5 / 100) \<le> exp (- (5 / 100) :: real)"
    by (rule exp_ge_add_one_self)
  then show ?thesis by simp
qed

subsection \<open>How much accuracy of the distribution function the tolerances need\<close>

lemma bumped_cdf_close: "\<bar>bumped_cdf x - norm_cdf x\<bar> \<le> 1 / 10 ^ 8"
  by (simp add: bumped_cdf_def)

lemma bumped_cdf_abs: "\<bar>bumped_cdf x\<bar> \<le> 2"
  using norm_cdf_nonneg [of x] norm_cdf_le_1 [of x] by (simp add: bumped_cdf_def)

lemma bumped_call_example:
  "spec_call bumped_cdf 100 100 1 (5 / 100) (2 / 10)
   = spec_call norm_cdf 100 100 1 (5 / 100) (2 / 10) + 1 / 10 ^ 6"
  unfolding spec_call_def reference_d1_d2 by (simp add: bumped_cdf_def)

lemma bumped_put_example:
  "spec_put bumped_cdf 100 100 1 (5 / 100) (2 / 10) = spec_put norm_cdf 100 100 1 (5 / 100) (2 / 10)"
  unfolding spec_put_def reference_d1_d2 by (simp add: bumped_cdf_def)

text \<open>
  With a distribution function that is within \<open>10\<^sup>-\<^sup>8\<close> of the exact one, the two sides
  of the parity at the example inputs differ by \<open>10\<^sup>-\<^sup>6\<close>, which is more than \<open>10\<^sup>-\<^sup>9\<close>
  times the larger of them.
\<close>

lemma parity_relative_tolerance_fails:
  "\<exists>c p. black_scholes_run h bumped_cdf (PyFloat 100) (PyFloat 100) (PyFloat 1) (PyFloat (5 / 100))
            (PyFloat (2 / 10)) ''call'' st = (Inr (Finite c), st)
       \<and> black_scholes_run h bumped_cdf (PyFloat 100) (PyFloat 100) (PyFloat 1) (PyFloat (5 / 100))
            (PyFloat (2 / 10)) ''put'' st = (Inr (Finite p), st)
       \<and> \<not> rel_close (c - p) (100 - 100 * exp (- (5 / 100) * 1)) (1 / 10 ^ 9)"
proof (intro exI conjI)
  have range: "no_overflow bumped_cdf 100 100 1 (5 / 100) (2 / 10)"
    by (rule no_overflow_moderate) (simp_all add: bumped_cdf_abs)
  show "black_scholes_run h bumped_cdf (PyFloat 100) (PyFloat 100) (PyFloat 1) (PyFloat (5 / 100))
            (PyFloat (2 / 10)) ''call'' st
        = (Inr (Finite (spec_call bumped_cdf 100 100 1 (5 / 100) (2 / 10))), st)"
    using black_scholes_run_call [of "PyFloat 100" "PyFloat 100" "PyFloat 1" "PyFloat (2 / 10)"
        "PyFloat (5 / 100)" bumped_cdf h st] range
    by (simp add: no_overflow_def)
  show "black_scholes_run h bumped_cdf (PyFloat 100) (PyFloat 100) (PyFloat 1) (PyFloat (5 / 100))
            (PyFloat (2 / 10)) ''put'' st
        = (Inr (Finite (spec_put bumped_cdf 100 100 1 (5 / 100) (2 / 10))), st)"
    using black_scholes_run_put [of "PyFloat 100" "PyFloat 100" "PyFloat 1" "PyFloat (2 / 10)"
        "PyFloat (5 / 100)" bumped_cdf h st] range
    by (simp add: no_overflow_def)
  define f :: real where "f = 100 - 100 * exp (- (5 / 100) * 1)"
  have f: "0 \<le> f" "f \<le> 5"
    using example_forward by (simp_all add: f_def)
  have gap: "spec_call bumped_cdf 100 100 1 (5 / 100) (2 / 10)
        - spec_put bumped_cdf 100 100 1 (5 / 100) (2 / 10) = f + 1 / 10 ^ 6"
    unfolding bumped_call_example bumped_put_example f_def
    using put_call_parity [of 100 100 1 "5 / 100" "2 / 10"] by linarith
  have "\<not> rel_close (f + 1 / 10 ^ 6) f (1 / 10 ^ 9)"
    using f by (simp add: rel_close_def max_def)
  then show "\<not> rel_close (spec_call bumped_cdf 100 100 1 (5 / 100) (2 / 10)
        - spec_put bumped_cdf 100 100 1 (5 / 100) (2 / 10))
      (100 - 100 * exp (- (5 / 100) * 1)) (1 / 10 ^ 9)"
    unfolding gap f_def .
qed

lemma norm_pdf_le_half: "norm_pdf x \<le> 1 / 2"
proof -
  have "(2 :: real) = sqrt (2 * 2)"
    by simp
  also have "\<dots> \<le> sqrt (2 * pi)"
    using pi_ge_two by (intro real_sqrt_le_mono mult_left_mono) simp_all
  finally have root: "2 \<le> sqrt (2 * pi)" .
  have "exp (- x\<^sup>2 / 2) \<le> 1"
    by simp
  then have "exp (- x\<^sup>2 / 2) / sqrt (2 * pi) \<le> 1 / 2"
    using root by (intro frac_le) simp_all
  then show ?thesis
    by (simp add: norm_pdf_def)
qed

text \<open>The call price grows with the volatility at most at the rate \<open>S * sqrt T / 2\<close>.\<close>

lemma spec_call_slope:
  assumes "0 < S" "0 < K" "0 < T" "0 < v1" "v1 \<le> v2"
  shows "spec_call norm_cdf S K T r v2 - spec_call norm_cdf S K T r v1 \<le> S * sqrt T / 2 * (v2 - v1)"
proof -
  have "S * sqrt T / 2 * v1 - spec_call norm_cdf S K T r v1
        \<le> S * sqrt T / 2 * v2 - spec_call norm_cdf S K T r v2"
  proof (rule DERIV_nonneg_imp_nondecreasing [OF assms(5)])
    fix x assume x: "v1 \<le> x" "x \<le> v2"
    then have pos: "0 < x" using assms(4) by simp
    have "DERIV (\<lambda>s. S * sqrt T / 2 * s - spec_call norm_cdf S K T r s) x
            :> S * sqrt T / 2 * 1 - S * norm_pdf (spec_d1 S K T r x) * sqrt T"
      by (intro DERIV_diff DERIV_cmult DERIV_ident DERIV_spec_call_sigma [OF assms(1-3) pos])
    moreover have "0 \<le> S * sqrt T / 2 * 1 - S * norm_pdf (spec_d1 S K T r x) * sqrt T"
    proof -
      have "S * norm_pdf (spec_d1 S K T r x) * sqrt T \<le> S * (1 / 2) * sqrt T"
        using assms(1,3) norm_pdf_le_half [of "spec_d1 S K T r x"]
        by (intro mult_right_mono mult_left_mono) simp_all
      then show ?thesis by simp
    qed
    ultimately show "\<exists>y. DERIV (\<lambda>s. S * sqrt T / 2 * s - spec_call norm_cdf S K T r s) x :> y \<and> 0 \<le> y"
      by blast
  qed
  then show ?thesis
    by (simp add: algebra_simps)
qed

text \<open>
  With the same distribution function, the call price at the example inputs is higher at
  the volatility 0.2 than at the volatility \<open>0.2 + 10\<^sup>-\<^sup>1\<^sup>0\<close>, inside the swept range.
\<close>

lemma monotonicity_needs_slack:
  "\<exists>p1 p2. black_scholes_run h bumped_cdf (PyFloat 100) (PyFloat 100) (PyFloat 1) (PyFloat (5 / 100))
              (NpFloat (2 / 10)) ''call'' st = (Inr (Finite p1), st)
         \<and> black_scholes_run h bumped_cdf (PyFloat 100) (PyFloat 100) (PyFloat 1) (PyFloat (5 / 100))
              (NpFloat (2 / 10 + 1 / 10 ^ 10)) ''call'' st = (Inr (Finite p2), st)
         \<and> p2 < p1"
proof (intro exI conjI)
  define v :: real where "v = 2 / 10 + 1 / 10 ^ 10"
  have v: "2 / 10 \<le> v" "v \<le> 1"
    by (simp_all add: v_def)
  have range1: "no_overflow bumped_cdf 100 100 1 (5 / 100) (2 / 10)"
    by (rule no_overflow_moderate) (simp_all add: bumped_cdf_abs)
  have range2: "no_overflow bumped_cdf 100 100 1 (5 / 100) v"
    by (rule no_overflow_moderate) (use v in \<open>simp_all add: bumped_cdf_abs\<close>)
  show "black_scholes_run h bumped_cdf (PyFloat 100) (PyFloat 100) (PyFloat 1) (PyFloat (5 / 100))
            (NpFloat (2 / 10)) ''call'' st
        = (Inr (Finite (spec_call bumped_cdf 100 100 1 (5 / 100) (2 / 10))), st)"
    using black_scholes_run_call [of "PyFloat 100" "PyFloat 100" "PyFloat 1" "NpFloat (2 / 10)"
        "PyFloat (5 / 100)" bumped_cdf h st] range1
    by (simp add: no_overflow_def)
  show "black_scholes_run h bumped_cdf (PyFloat 100) (PyFloat 100) (PyFloat 1) (PyFloat (5 / 100))
            (NpFloat (2 / 10 + 1 / 10 ^ 10)) ''call'' st
        = (Inr (Finite (spec_call bumped_cdf 100 100 1 (5 / 100) v)), st)"
    unfolding v_def [symmetric]
    using black_scholes_run_call [of "PyFloat 100" "PyFloat 100" "PyFloat 1" "NpFloat v"
        "PyFloat (5 / 100)" bumped_cdf h st] range2 v
    by (simp add: no_overflow_def)
  have d1: "spec_d1 100 100 1 (5 / 100) v \<noteq> 7 / 20"
    by (simp add: spec_d1_def v_def power_divide field_simps)
  have d2: "spec_d2 100 100 1 (5 / 100) v \<noteq> 7 / 20"
    by (simp add: spec_d2_def spec_d1_def v_def power_divide field_simps)
  have "spec_call bumped_cdf 100 100 1 (5 / 100) v = spec_call norm_cdf 100 100 1 (5 / 100) v"
    using d1 d2 by (simp add: spec_call_def bumped_cdf_def)
  moreover have "spec_call norm_cdf 100 100 1 (5 / 100) v - spec_call norm_cdf 100 100 1 (5 / 100) (2 / 10)
        \<le> 100 * sqrt 1 / 2 * (v - 2 / 10)"
    by (rule spec_call_slope) (use v in simp_all)
  moreover have "100 * sqrt 1 / 2 * (v - 2 / 10) < (1 / 10 ^ 6 :: real)"
    by (simp add: v_def)
  ultimately show "spec_call bumped_cdf 100 100 1 (5 / 100) v
        < spec_call bumped_cdf 100 100 1 (5 / 100) (2 / 10)"
    unfolding bumped_call_example by linarith
qed

subsection \<open>The code computes the closed formula\<close>




subsection \<open>Put-call parity\<close>




subsection \<open>Which calls raise\<close>




subsection \<open>The reference prices of the example\<close>

text \<open>
  C4: at spot 100, strike 100, maturity 1, rate 0.05 and volatility 0.2, with any
  distribution function that is within \<open>10\<^sup>-\<^sup>8\<close> of the standard normal one, the call
  price is within 0.01 of 10.45 and the put price within 0.01 of 5.57. The function of
  the example cell, which fixes these parameters itself, returns prices within the
  same bounds whatever its numeric arguments.
\<close>

theorem C4_reference_prices:
  assumes "\<forall>x. \<bar>cdf x - norm_cdf x\<bar> \<le> 1 / 10 ^ 8"
  shows "(\<exists>c p. black_scholes_with cdf 100 100 1 (5 / 100) (2 / 10) ''call'' = Inr (Fin c)
             \<and> \<bar>c - 1045 / 100\<bar> \<le> 1 / 100
             \<and> black_scholes_with cdf 100 100 1 (5 / 100) (2 / 10) ''put'' = Inr (Fin p)
             \<and> \<bar>p - 557 / 100\<bar> \<le> 1 / 100)
       \<and> (\<exists>c p. fst (black_scholes_example S K T r sigma ''call'' out) = Inr (Float (Fin c))
             \<and> \<bar>c - 1045 / 100\<bar> \<le> 1 / 100
             \<and> fst (black_scholes_example S K T r sigma ''put'' out) = Inr (Float (Fin p))
             \<and> \<bar>p - 557 / 100\<bar> \<le> 1 / 100)"
proof (intro conjI exI)
  have approx: "\<bar>cdf x - norm_cdf x\<bar> \<le> 1 / 10 ^ 8" for x
    using assms by blast
  show "black_scholes_with cdf 100 100 1 (5 / 100) (2 / 10) ''call''
          = Inr (Fin (spec_call cdf 100 100 1 (5 / 100) (2 / 10)))"
    by (rule black_scholes_with_call) simp_all
  show "\<bar>spec_call cdf 100 100 1 (5 / 100) (2 / 10) - 1045 / 100\<bar> \<le> 1 / 100"
    by (rule reference_prices(1) [OF approx])
  show "black_scholes_with cdf 100 100 1 (5 / 100) (2 / 10) ''put''
          = Inr (Fin (spec_put cdf 100 100 1 (5 / 100) (2 / 10)))"
    by (rule black_scholes_with_put) simp_all
  show "\<bar>spec_put cdf 100 100 1 (5 / 100) (2 / 10) - 557 / 100\<bar> \<le> 1 / 100"
    by (rule reference_prices(2) [OF approx])
  have exact: "\<bar>norm_cdf x - norm_cdf x\<bar> \<le> 1 / 10 ^ 8" for x
    by simp
  have "black_scholes 100 100 1 (5 / 100) (2 / 10) ''call''
          = Inr (Fin (spec_call norm_cdf 100 100 1 (5 / 100) (2 / 10)))"
    unfolding black_scholes_def by (rule black_scholes_with_call) simp_all
  then show "fst (black_scholes_example S K T r sigma ''call'' out)
          = Inr (Float (Fin (spec_call norm_cdf 100 100 1 (5 / 100) (2 / 10))))"
    by (simp only: black_scholes_example_eq fst_conv map_sum.simps)
  show "\<bar>spec_call norm_cdf 100 100 1 (5 / 100) (2 / 10) - 1045 / 100\<bar> \<le> 1 / 100"
    by (rule reference_prices(1) [OF exact])
  have "black_scholes 100 100 1 (5 / 100) (2 / 10) ''put''
          = Inr (Fin (spec_put norm_cdf 100 100 1 (5 / 100) (2 / 10)))"
    unfolding black_scholes_def by (rule black_scholes_with_put) simp_all
  then show "fst (black_scholes_example S K T r sigma ''put'' out)
          = Inr (Float (Fin (spec_put norm_cdf 100 100 1 (5 / 100) (2 / 10))))"
    by (simp only: black_scholes_example_eq fst_conv map_sum.simps)
  show "\<bar>spec_put norm_cdf 100 100 1 (5 / 100) (2 / 10) - 557 / 100\<bar> \<le> 1 / 100"
    by (rule reference_prices(2) [OF exact])
qed

theorem C4_reference_prices_witness:
  "\<exists>c p. black_scholes 100 100 1 (5 / 100) (2 / 10) ''call'' = Inr (Fin c)
       \<and> \<bar>c - 1045 / 100\<bar> \<le> 1 / 100
       \<and> black_scholes 100 100 1 (5 / 100) (2 / 10) ''put'' = Inr (Fin p)
       \<and> \<bar>p - 557 / 100\<bar> \<le> 1 / 100"
proof -
  have "\<forall>x. \<bar>norm_cdf x - norm_cdf x\<bar> \<le> 1 / 10 ^ 8"
    by simp
  from C4_reference_prices [OF this] show ?thesis
    unfolding black_scholes_def by blast
qed

subsection \<open>A finite price on valid inputs\<close>




subsection \<open>The call price and the volatility\<close>




subsection \<open>Determinism, purity and the sweep\<close>




text \<open>
  The notebook binds \<^verbatim>\<open>S\<close>, \<^verbatim>\<open>K\<close>, \<^verbatim>\<open>T\<close>, \<^verbatim>\<open>r\<close> and \<^verbatim>\<open>sigma\<close> only as parameters of
  its functions, so in a fresh session the sweep cell stops at the first lookup.
\<close>

lemma sweep_run_unbound:
  assumes "globals ''S'' = None"
  shows "sweep_run pricer globals st = (Inl NameError, st)"
  using assms
  by (simp add: sweep_run_def linspace_def upt_conv_Cons lookup_run_def and_then_def throw_def
      del: upt_Suc)





subsection \<open>Intrinsic value at expiry\<close>



subsection \<open>The redefinition ignores its numeric arguments\<close>

text \<open>
  C9: the function of the example cell returns what the first function returns at
  S = 100, K = 100, T = 1, r = 0.05, sigma = 0.2 for the given option type, so two calls
  that agree on the option type agree on the result, whatever their numeric arguments;
  and it prints nothing: standard output is as it was before the call, the
  statements after the \<^verbatim>\<open>return\<close> (two recursive calls and two prints) are not run.
\<close>

theorem C9_example_ignores_arguments:
  "black_scholes_example S K T r sigma option_type out =
     black_scholes_example S' K' T' r' sigma' option_type out
   \<and> fst (black_scholes_example S K T r sigma option_type out) =
       map_sum id Float (black_scholes 100 100 1 (5 / 100) (2 / 10) option_type)
   \<and> snd (black_scholes_example S K T r sigma option_type out) = out"
  by (simp add: black_scholes_example_eq del: black_scholes_example.simps)

subsection \<open>Prices are not negative on valid inputs\<close>

text \<open>
  C10: for spot, strike, maturity and volatility all positive and the side call or put,
  the price returned is not negative (in real arithmetic).
\<close>

theorem C10_price_nonneg:
  assumes "0 < S" "0 < K" "0 < T" "0 < sigma"
    and "option_type = ''call'' \<or> option_type = ''put''"
  shows "\<exists>p. black_scholes S K T r sigma option_type = Inr (Fin p) \<and> 0 \<le> p"
  using assms(5)
proof
  assume "option_type = ''call''"
  then show ?thesis
    using black_scholes_with_call [OF assms(1-4), of norm_cdf r] spec_call_nonneg [OF assms(1-4), of r]
    by (simp add: black_scholes_def)
next
  assume "option_type = ''put''"
  then show ?thesis
    using black_scholes_with_put [OF assms(1-4), of norm_cdf r] spec_put_nonneg [OF assms(1-4), of r]
    by (simp add: black_scholes_def)
qed

theorem C10_price_nonneg_witness:
  "\<exists>p. black_scholes 1 1000 (1 / 10) (5 / 100) (1 / 10) ''call'' = Inr (Fin p) \<and> 0 \<le> p"
  using C10_price_nonneg [of 1 1000 "1 / 10" "1 / 10" "''call''" "5 / 100"] by simp

end
